theory Spec2Isabelle
  imports Complex_Main
begin

section \<open>Clock-domain-crossing generators of \<open>nmigen/lib/cdc.py\<close>\<close>

text \<open>
  The module defines four generators of hardware structure: \<open>FFSynchronizer\<close>,
  \<open>AsyncFFSynchronizer\<close>, \<open>ResetSynchronizer\<close> and \<open>PulseSynchronizer\<close>. Each has a
  constructor that validates its configuration and an \<open>elaborate\<close> method that returns the
  structure. Both are embedded here as functions that return \<open>error + result\<close>, a raise
  of the source being an \<open>Inl\<close>.
\<close>

subsection \<open>Python values and exceptions\<close>

text \<open>
  The values a caller can pass where the source expects a stage count or a maximum input
  delay. \<open>bool\<close> is a subclass of \<open>int\<close> in Python, so \<open>isinstance(True, int)\<close> holds and
  \<open>True\<close> compares as 1. A float is only ever tested for being \<open>None\<close> or an instance of
  \<open>int\<close>, never computed with.
\<close>

datatype pyval = PyNone | PyBool bool | PyInt int | PyFloat real | PyStr string

text \<open>
  The exceptions the source raises. The specification names \<open>TypeError\<close> the
  \<open>InvalidType\<close> condition, \<open>ValueError\<close> the \<open>UnsafeValue\<close> condition and
  \<open>NotImplementedError\<close> the \<open>UnsupportedConstraint\<close> condition. \<open>IndexError\<close> is what
  \<open>flops[-1]\<close> raises on an empty list. The argument is the message of the source with
  its format fields left unfilled.
\<close>

datatype error =
    TypeError string
  | ValueError string
  | NotImplementedError string
  | IndexError

text \<open>\<open>isinstance(v, int)\<close> together with the integer the value compares as.\<close>

fun int_of :: "pyval \<Rightarrow> int option" where
  "int_of (PyInt n) = Some n"
| "int_of (PyBool b) = Some (if b then 1 else 0)"
| "int_of _ = None"

text \<open>
  \<^verbatim>\<open>
  def _check_stages(stages):
      if not isinstance(stages, int) or stages < 1:
          raise TypeError(...)
      if stages < 2:
          raise ValueError(...)
  \<close>
  On success the model returns the stage count as the integer it is.
\<close>

definition check_stages :: "pyval \<Rightarrow> error + int" where
  "check_stages stages =
     (case int_of stages of
        None \<Rightarrow> Inl (TypeError ''Synchronization stage count must be a positive integer, not {!r}'')
      | Some n \<Rightarrow>
          if n < 1 then
            Inl (TypeError ''Synchronization stage count must be a positive integer, not {!r}'')
          else if n < 2 then
            Inl (ValueError ''Synchronization stage count may not safely be less than 2'')
          else Inr n)"

subsection \<open>Signals, values, statements and modules of the host framework\<close>

text \<open>
  The source builds its result from the constructors of the hardware description
  framework it imports (\<open>from .. import *\<close>): \<open>Signal\<close>, \<open>Const\<close>, \<open>ClockSignal\<close>,
  \<open>ResetSignal\<close>, the operators \<open>~\<close> and \<open>^\<close>, \<open>eq\<close>, \<open>ClockDomain\<close> and \<open>Module\<close>.
  They are data here: the terms the source writes.
\<close>

record shape =
  width :: nat
  signed :: bool

definition unsigned :: "nat \<Rightarrow> shape" where
  "unsigned w = \<lparr>width = w, signed = False\<rparr>"

text \<open>
  A signal is an object with an identity: two calls of \<open>Signal(...)\<close> with the same
  arguments give two different signals. The identity is \<open>sig_uid\<close>, taken from a counter
  that every function creating signals receives and returns. \<open>sig_name\<close> is \<open>None\<close>
  where the source passes no name.
\<close>

record signal =
  sig_uid :: nat
  sig_shape :: shape
  sig_name :: "string option"
  sig_reset :: int
  sig_reset_less :: bool

definition Signal :: "shape \<Rightarrow> string option \<Rightarrow> int \<Rightarrow> bool \<Rightarrow> nat \<Rightarrow> signal \<times> nat" where
  "Signal shp nm rst rl n =
     (\<lparr>sig_uid = n, sig_shape = shp, sig_name = nm, sig_reset = rst, sig_reset_less = rl\<rparr>,
      Suc n)"

datatype val =
    Const int
  | Sig signal
  | ClockSignal string
  | ResetSignal string
  | Not val
  | Xor val val

text \<open>\<open>Assign lhs rhs\<close> is the statement \<open>lhs.eq(rhs)\<close>.\<close>

datatype stmt = Assign val val

text \<open>\<open>ClockDomain(name, async_reset=..., local=...)\<close>.\<close>

record ClockDomain =
  cd_name :: string
  cd_async_reset :: bool
  cd_local :: bool

subsection \<open>The generators\<close>

text \<open>The attributes that each constructor stores.\<close>

record FFSynchronizer =
  ff_i :: signal
  ff_o :: signal
  ff_reset :: int
  ff_reset_less :: bool
  ff_o_domain :: string
  ff_stages :: int
  ff_max_input_delay :: pyval

record AsyncFFSynchronizer =
  aff_i :: signal
  aff_o :: val
  aff_domain :: string
  aff_stages :: int
  aff_edge :: string
  aff_max_input_delay :: pyval

record ResetSynchronizer =
  rs_arst :: signal
  rs_domain :: string
  rs_stages :: int
  rs_max_input_delay :: pyval

record PulseSynchronizer =
  ps_i :: signal
  ps_o :: signal
  ps_i_domain :: string
  ps_o_domain :: string
  ps_sync_stages :: pyval

text \<open>
  A module as the source fills it: \<open>m.domains += d\<close> appends to \<open>m_domains\<close>,
  \<open>m.d[name] += s\<close> appends \<open>(name, s)\<close> to \<open>m_stmts\<close>, \<open>m.d.comb += s\<close> appends
  \<open>(''comb'', s)\<close> and \<open>m.d.async_ff += s\<close> appends \<open>(''async_ff'', s)\<close>, and
  \<open>m.submodules.ff_sync = x\<close> appends \<open>(''ff_sync'', x)\<close> to \<open>m_submodules\<close>. The only
  object the source ever adds as a submodule is an \<open>FFSynchronizer\<close>.
\<close>

record module =
  m_domains :: "ClockDomain list"
  m_stmts :: "(string \<times> stmt) list"
  m_submodules :: "(string \<times> FFSynchronizer) list"

definition Module :: module where
  "Module = \<lparr>m_domains = [], m_stmts = [], m_submodules = []\<rparr>"

text \<open>
  The platform is an object that may or may not have the methods \<open>get_ff_sync\<close> and
  \<open>get_async_ff_sync\<close>; \<open>hasattr\<close> is \<open>\<noteq> None\<close>. What such a method returns is up to
  the platform, so its type is a parameter, and that type stands for every outcome of the
  call.
\<close>

record 'f platform =
  get_ff_sync :: "(FFSynchronizer \<Rightarrow> 'f) option"
  get_async_ff_sync :: "(AsyncFFSynchronizer \<Rightarrow> 'f) option"

text \<open>What \<open>elaborate\<close> returns: the result of the platform's method, or the module built.\<close>

datatype 'f elaborated = Platform_result 'f | Built module

subsubsection \<open>Constructors\<close>

definition FFSynchronizer_init ::
  "signal \<Rightarrow> signal \<Rightarrow> string \<Rightarrow> int \<Rightarrow> bool \<Rightarrow> pyval \<Rightarrow> pyval \<Rightarrow> error + FFSynchronizer" where
  "FFSynchronizer_init i o' o_domain reset reset_less stages max_input_delay =
     (case check_stages stages of
        Inl e \<Rightarrow> Inl e
      | Inr n \<Rightarrow>
          Inr \<lparr>ff_i = i, ff_o = o', ff_reset = reset, ff_reset_less = reset_less,
               ff_o_domain = o_domain, ff_stages = n, ff_max_input_delay = max_input_delay\<rparr>)"

definition AsyncFFSynchronizer_init ::
  "signal \<Rightarrow> val \<Rightarrow> string \<Rightarrow> pyval \<Rightarrow> string \<Rightarrow> pyval \<Rightarrow> error + AsyncFFSynchronizer" where
  "AsyncFFSynchronizer_init i o' domain stages async_edge max_input_delay =
     (case check_stages stages of
        Inl e \<Rightarrow> Inl e
      | Inr n \<Rightarrow>
          if async_edge \<noteq> ''pos'' \<and> async_edge \<noteq> ''neg'' then
            Inl (ValueError
              ''AsyncFFSynchronizer async edge must be one of 'pos' or 'neg', not {!r}'')
          else
            Inr \<lparr>aff_i = i, aff_o = o', aff_domain = domain, aff_stages = n,
                 aff_edge = async_edge, aff_max_input_delay = max_input_delay\<rparr>)"

definition ResetSynchronizer_init ::
  "signal \<Rightarrow> string \<Rightarrow> pyval \<Rightarrow> pyval \<Rightarrow> error + ResetSynchronizer" where
  "ResetSynchronizer_init arst domain stages max_input_delay =
     (case check_stages stages of
        Inl e \<Rightarrow> Inl e
      | Inr n \<Rightarrow>
          Inr \<lparr>rs_arst = arst, rs_domain = domain, rs_stages = n,
               rs_max_input_delay = max_input_delay\<rparr>)"

text \<open>
  \<open>PulseSynchronizer.__init__\<close> does not call \<open>_check_stages\<close>. It has a check of its
  own, which has no second test, and it creates the signals \<open>i\<close> and \<open>o\<close> with
  \<open>Signal()\<close>: one bit, unsigned, reset value 0, not exempt from reset.
\<close>

definition PulseSynchronizer_init ::
  "string \<Rightarrow> string \<Rightarrow> pyval \<Rightarrow> nat \<Rightarrow> error + (PulseSynchronizer \<times> nat)" where
  "PulseSynchronizer_init i_domain o_domain sync_stages n =
     (if (case int_of sync_stages of None \<Rightarrow> True | Some k \<Rightarrow> k < 1) then
        Inl (TypeError (''sync_stages must be a positive integer, not '{!r}'' @ [CHR 0x27]))
      else
        let (i, n1) = Signal (unsigned 1) None 0 False n;
            (o', n2) = Signal (unsigned 1) None 0 False n1
        in Inr (\<lparr>ps_i = i, ps_o = o', ps_i_domain = i_domain, ps_o_domain = o_domain,
                 ps_sync_stages = sync_stages\<rparr>, n2))"

subsubsection \<open>Helpers for the Python constructs of \<open>elaborate\<close>\<close>

text \<open>\<open>"{}".format(index)\<close> for an index of \<open>range\<close>: the decimal digits.\<close>

fun str_nat :: "nat \<Rightarrow> string" where
  "str_nat n =
     (if n < 10 then [char_of (48 + n)]
      else str_nat (n div 10) @ [char_of (48 + n mod 10)])"

declare str_nat.simps [simp del]

text \<open>\<open>range(k)\<close> for an integer \<open>k\<close>: empty when \<open>k \<le> 0\<close>.\<close>

definition range :: "int \<Rightarrow> nat list" where
  "range k = [0..<nat k]"

text \<open>
  A list comprehension \<open>[f(x) for x in xs]\<close> whose body creates a signal: the counter of
  signal identities goes through the calls from left to right.
\<close>

fun comprehension :: "('a \<Rightarrow> nat \<Rightarrow> 'b \<times> nat) \<Rightarrow> 'a list \<Rightarrow> nat \<Rightarrow> 'b list \<times> nat" where
  "comprehension f [] n = ([], n)"
| "comprehension f (x # xs) n =
     (let (y, n1) = f x n; (ys, n2) = comprehension f xs n1 in (y # ys, n2))"

text \<open>\<open>m.d[domain] += s\<close> and \<open>m.domains += d\<close>.\<close>

definition d_add :: "string \<Rightarrow> stmt \<Rightarrow> module \<Rightarrow> module" where
  "d_add domain s m = m\<lparr>m_stmts := m_stmts m @ [(domain, s)]\<rparr>"

definition domains_add :: "ClockDomain \<Rightarrow> module \<Rightarrow> module" where
  "domains_add d m = m\<lparr>m_domains := m_domains m @ [d]\<rparr>"

definition submodules_set :: "string \<Rightarrow> FFSynchronizer \<Rightarrow> module \<Rightarrow> module" where
  "submodules_set nm x m = m\<lparr>m_submodules := m_submodules m @ [(nm, x)]\<rparr>"

subsubsection \<open>\<open>elaborate\<close>\<close>

text \<open>
  \<^verbatim>\<open>
  def elaborate(self, platform):
      if hasattr(platform, "get_ff_sync"):
          return platform.get_ff_sync(self)
      if self._max_input_delay is not None:
          raise NotImplementedError(...)
      m = Module()
      flops = [Signal(self.i.shape(), name="stage{}".format(index),
                      reset=self._reset, reset_less=self._reset_less)
               for index in range(self._stages)]
      for i, o in zip((self.i, *flops), flops):
          m.d[self._o_domain] += o.eq(i)
      m.d.comb += self.o.eq(flops[-1])
      return m
  \<close>
\<close>

definition FFSynchronizer_elaborate ::
  "FFSynchronizer \<Rightarrow> 'f platform \<Rightarrow> nat \<Rightarrow> error + ('f elaborated \<times> nat)" where
  "FFSynchronizer_elaborate self platform n =
     (case get_ff_sync platform of
        Some hook \<Rightarrow> Inr (Platform_result (hook self), n)
      | None \<Rightarrow>
          if ff_max_input_delay self \<noteq> PyNone then
            Inl (NotImplementedError
              ''Platform '{}' does not support constraining input delay for FFSynchronizer'')
          else
            let m = Module;
                (flops, n') =
                  comprehension
                    (\<lambda>index. Signal (sig_shape (ff_i self)) (Some (''stage'' @ str_nat index))
                       (ff_reset self) (ff_reset_less self))
                    (range (ff_stages self)) n;
                m = fold (\<lambda>(i, o'). d_add (ff_o_domain self) (Assign (Sig o') i))
                      (zip (Sig (ff_i self) # map Sig flops) flops) m
            in if flops = [] then Inl IndexError
               else Inr (Built (d_add ''comb'' (Assign (Sig (ff_o self)) (Sig (last flops))) m),
                         n'))"

text \<open>
  \<^verbatim>\<open>
  def elaborate(self, platform):
      if hasattr(platform, "get_async_ff_sync"):
          return platform.get_async_ff_sync(self)
      if self._max_input_delay is not None:
          raise NotImplementedError(...)
      m = Module()
      m.domains += ClockDomain("async_ff", async_reset=True, local=True)
      flops = [Signal(1, name="stage{}".format(index), reset=1)
               for index in range(self._stages)]
      for i, o in zip((0, *flops), flops):
          m.d.async_ff += o.eq(i)
      if self._edge == "pos":
          m.d.comb += ResetSignal("async_ff").eq(self.i)
      else:
          m.d.comb += ResetSignal("async_ff").eq(~self.i)
      m.d.comb += [
          ClockSignal("async_ff").eq(ClockSignal(self._domain)),
          self.o.eq(flops[-1])
      ]
      return m
  \<close>
  \<open>flops[-1]\<close> is evaluated while the last list is built, after the statements before
  it were added; a module that is not returned is lost, so the order does not show.
\<close>

definition AsyncFFSynchronizer_elaborate ::
  "AsyncFFSynchronizer \<Rightarrow> 'f platform \<Rightarrow> nat \<Rightarrow> error + ('f elaborated \<times> nat)" where
  "AsyncFFSynchronizer_elaborate self platform n =
     (case get_async_ff_sync platform of
        Some hook \<Rightarrow> Inr (Platform_result (hook self), n)
      | None \<Rightarrow>
          if aff_max_input_delay self \<noteq> PyNone then
            Inl (NotImplementedError
              ''Platform '{}' does not support constraining input delay for AsyncFFSynchronizer'')
          else
            let m = Module;
                m = domains_add
                      \<lparr>cd_name = ''async_ff'', cd_async_reset = True, cd_local = True\<rparr> m;
                (flops, n') =
                  comprehension
                    (\<lambda>index. Signal (unsigned 1) (Some (''stage'' @ str_nat index)) 1 False)
                    (range (aff_stages self)) n;
                m = fold (\<lambda>(i, o'). d_add ''async_ff'' (Assign (Sig o') i))
                      (zip (Const 0 # map Sig flops) flops) m;
                m = (if aff_edge self = ''pos'' then
                       d_add ''comb'' (Assign (ResetSignal ''async_ff'') (Sig (aff_i self))) m
                     else
                       d_add ''comb''
                         (Assign (ResetSignal ''async_ff'') (Not (Sig (aff_i self)))) m)
            in if flops = [] then Inl IndexError
               else
                 Inr (Built
                        (d_add ''comb'' (Assign (aff_o self) (Sig (last flops)))
                           (d_add ''comb''
                              (Assign (ClockSignal ''async_ff'') (ClockSignal (aff_domain self)))
                              m)),
                      n'))"


text \<open>
  \<^verbatim>\<open>
  def elaborate(self, platform):
      m = Module()
      itoggle = Signal()
      otoggle = Signal()
      ff_sync = m.submodules.ff_sync = \
          FFSynchronizer(itoggle, otoggle, o_domain=self.o_domain, stages=self.sync_stages)
      otoggle_prev = Signal()
      m.d[self.i_domain] += itoggle.eq(itoggle ^ self.i)
      m.d[self.o_domain] += otoggle_prev.eq(otoggle)
      m.d.comb += self.o.eq(otoggle ^ otoggle_prev)
      return m
  \<close>
  The \<open>FFSynchronizer\<close> is constructed with \<open>reset=0\<close>, \<open>reset_less=True\<close> and
  \<open>max_input_delay=None\<close>, the defaults of its constructor.
\<close>

definition PulseSynchronizer_elaborate ::
  "PulseSynchronizer \<Rightarrow> 'f platform \<Rightarrow> nat \<Rightarrow> error + (module \<times> nat)" where
  "PulseSynchronizer_elaborate self platform n =
     (let m = Module;
          (itoggle, n1) = Signal (unsigned 1) None 0 False n;
          (otoggle, n2) = Signal (unsigned 1) None 0 False n1
      in case FFSynchronizer_init itoggle otoggle (ps_o_domain self) 0 True
                (ps_sync_stages self) PyNone of
           Inl e \<Rightarrow> Inl e
         | Inr ff_sync \<Rightarrow>
             let m = submodules_set ''ff_sync'' ff_sync m;
                 (otoggle_prev, n3) = Signal (unsigned 1) None 0 False n2;
                 m = d_add (ps_i_domain self)
                       (Assign (Sig itoggle) (Xor (Sig itoggle) (Sig (ps_i self)))) m;
                 m = d_add (ps_o_domain self) (Assign (Sig otoggle_prev) (Sig otoggle)) m;
                 m = d_add ''comb''
                       (Assign (Sig (ps_o self)) (Xor (Sig otoggle) (Sig otoggle_prev))) m
             in Inr (m, n3))"

subsection \<open>Names for the parts of the structure\<close>

text \<open>
  The signal that the comprehension of \<open>elaborate\<close> creates for index \<open>k\<close> when the counter
  of identities stood at \<open>n\<close>: \<open>Signal(shp, name="stage{k}", reset=r, reset_less=rl)\<close>.
\<close>

definition stage :: "shape \<Rightarrow> int \<Rightarrow> bool \<Rightarrow> nat \<Rightarrow> nat \<Rightarrow> signal" where
  "stage shp r rl n k =
     \<lparr>sig_uid = n + k, sig_shape = shp, sig_name = Some (''stage'' @ str_nat k),
      sig_reset = r, sig_reset_less = rl\<rparr>"

text \<open>
  A cascade of \<open>N\<close> registers \<open>g 0, ..., g (N - 1)\<close> in domain \<open>d\<close>: register 0 is
  assigned \<open>src\<close>, register \<open>k > 0\<close> is assigned register \<open>k - 1\<close>.
\<close>

definition chain :: "string \<Rightarrow> val \<Rightarrow> (nat \<Rightarrow> signal) \<Rightarrow> nat \<Rightarrow> (string \<times> stmt) list" where
  "chain d src g N =
     map (\<lambda>k. (d, Assign (Sig (g k)) (if k = 0 then src else Sig (g (k - 1))))) [0..<N]"

subsection \<open>What a generated structure does\<close>

text \<open>
  The source only builds structure. What the structure does when clocks tick is decided
  by the host framework (its simulator and back ends), which is not part of the source
  file. The definitions of this subsection give that meaning from the specification, as
  far as the structures of this file need it.
\<close>

unbundle bit_operations_syntax

text \<open>
  Modelled from the spec: the value of a signal. The specification calls a signal ``a
  bit-vector wire with a fixed width''; a state gives every signal, and the clock and
  reset signal of every domain, an integer, and a value stored in a signal is reduced to
  the signal's shape.
\<close>

type_synonym state = "val \<Rightarrow> int"

definition wrap :: "shape \<Rightarrow> int \<Rightarrow> int" where
  "wrap shp v =
     (if signed shp then
        (if width shp = 0 then 0
         else (v + 2 ^ (width shp - 1)) mod 2 ^ width shp - 2 ^ (width shp - 1))
      else v mod 2 ^ width shp)"

text \<open>
  Modelled from the spec: the value of an expression. \<open>~\<close> and \<open>^\<close> are the bitwise
  operators, here on integers; the assignments of the source store their results in
  signals one bit wide, where only the lowest bit counts.
\<close>

fun eval :: "state \<Rightarrow> val \<Rightarrow> int" where
  "eval s (Const c) = c"
| "eval s (Sig x) = s (Sig x)"
| "eval s (ClockSignal d) = s (ClockSignal d)"
| "eval s (ResetSignal d) = s (ResetSignal d)"
| "eval s (Not v) = NOT (eval s v)"
| "eval s (Xor a b) = eval s a XOR eval s b"

text \<open>
  Modelled from the spec: an assignment stores a value in a signal, or in the clock or
  reset signal of a domain, which are one bit wide. Nothing else can be assigned to.
\<close>

fun assign :: "val \<Rightarrow> int \<Rightarrow> state \<Rightarrow> state" where
  "assign (Sig x) v s = s(Sig x := wrap (sig_shape x) v)"
| "assign (ClockSignal d) v s = s(ClockSignal d := wrap (unsigned 1) v)"
| "assign (ResetSignal d) v s = s(ResetSignal d := wrap (unsigned 1) v)"
| "assign _ v s = s"

text \<open>
  Modelled from the spec: a statement is executed either with its right-hand side read
  in the state before the clock edge (\<open>exec_from\<close>, synchronous assignment: ``the described
  register chain updates once per clock edge'') or in the current state (\<open>exec\<close>,
  combinational assignment).
\<close>

fun exec_from :: "state \<Rightarrow> stmt \<Rightarrow> state \<Rightarrow> state" where
  "exec_from old (Assign l r) s = assign l (eval old r) s"

fun exec :: "stmt \<Rightarrow> state \<Rightarrow> state" where
  "exec (Assign l r) s = assign l (eval s r) s"

text \<open>
  Modelled from the spec: the design that the host framework makes of a module (``the
  caller's elaboration framework inlines [the fragment] into the final design''). The
  framework elaborates every submodule on the same platform and puts the domains and
  statements together. What a platform's method returned is opaque and contributes
  nothing here.
\<close>

record design =
  d_domains :: "ClockDomain list"
  d_stmts :: "(string \<times> stmt) list"

fun inline_submodules ::
  "'f platform \<Rightarrow> (string \<times> FFSynchronizer) list \<Rightarrow> nat \<Rightarrow> error + (design \<times> nat)" where
  "inline_submodules platform [] n = Inr (\<lparr>d_domains = [], d_stmts = []\<rparr>, n)"
| "inline_submodules platform ((nm, x) # xs) n =
     (case FFSynchronizer_elaborate x platform n of
        Inl e \<Rightarrow> Inl e
      | Inr (r, n1) \<Rightarrow>
          (case inline_submodules platform xs n1 of
             Inl e \<Rightarrow> Inl e
           | Inr (D, n2) \<Rightarrow>
               (case r of
                  Platform_result f \<Rightarrow> Inr (D, n2)
                | Built m \<Rightarrow>
                    Inr (\<lparr>d_domains = m_domains m @ d_domains D,
                          d_stmts = m_stmts m @ d_stmts D\<rparr>, n2))))"

definition inline :: "'f platform \<Rightarrow> module \<Rightarrow> nat \<Rightarrow> error + (design \<times> nat)" where
  "inline platform m n =
     (case inline_submodules platform (m_submodules m) n of
        Inl e \<Rightarrow> Inl e
      | Inr (D, n') \<Rightarrow>
          Inr (\<lparr>d_domains = m_domains m @ d_domains D, d_stmts = m_stmts m @ d_stmts D\<rparr>, n'))"

text \<open>The statements that a design has in one domain, in order.\<close>

definition domain_stmts :: "string \<Rightarrow> design \<Rightarrow> stmt list" where
  "domain_stmts d D = map snd (filter (\<lambda>(x, st). x = d) (d_stmts D))"

text \<open>
  Modelled from the spec: ``combinational outputs settle immediately in the same cycle''.
  One pass executes the combinational statements in order; as many passes as there are
  statements let every value reach the end of a chain of combinational assignments.
\<close>

definition comb_pass :: "design \<Rightarrow> state \<Rightarrow> state" where
  "comb_pass D s = fold exec (domain_stmts ''comb'' D) s"

definition settle :: "design \<Rightarrow> state \<Rightarrow> state" where
  "settle D s = (comb_pass D ^^ length (domain_stmts ''comb'' D)) s"

text \<open>
  Modelled from the spec: a domain whose clock signal is combinationally assigned the
  clock signal of domain \<open>d\<close> has its clock edges when \<open>d\<close> has them (``domain clock ...
  tied to the destination clock'').
\<close>

fun clock_tie :: "string \<Rightarrow> stmt \<Rightarrow> string list" where
  "clock_tie d (Assign (ClockSignal x) (ClockSignal y)) = (if y = d then [x] else [])"
| "clock_tie d _ = []"

definition ticked :: "design \<Rightarrow> string \<Rightarrow> string list" where
  "ticked D d = d # concat (map (clock_tie d) (domain_stmts ''comb'' D))"

text \<open>
  Modelled from the spec: reset. While the reset signal of a domain is asserted, every
  register assigned in that domain that is not exempt from reset takes its reset value
  (``a non-exempt chain is cleared whenever the destination domain resets'', ``a
  reset-exempt chain ... ignores the destination domain's runtime reset'').
\<close>

fun reset_of :: "stmt \<Rightarrow> state \<Rightarrow> state" where
  "reset_of (Assign (Sig x) r) s =
     (if sig_reset_less x then s else assign (Sig x) (sig_reset x) s)"
| "reset_of _ s = s"

definition reset_domain :: "design \<Rightarrow> state \<Rightarrow> string \<Rightarrow> state \<Rightarrow> state" where
  "reset_domain D old x s =
     (if old (ResetSignal x) \<noteq> 0 then fold reset_of (domain_stmts x D) s else s)"

text \<open>
  Modelled from the spec: a clock edge of domain \<open>x\<close>. Every statement of the domain is
  executed with its right-hand side read before the edge, and the reset of the domain,
  if asserted before the edge, overrides it. \<open>comb\<close> is the name under which the source
  adds combinational statements (\<open>m.d.comb\<close>); it has no clock.
\<close>

definition sync_update :: "design \<Rightarrow> state \<Rightarrow> string \<Rightarrow> state \<Rightarrow> state" where
  "sync_update D old x s =
     (if x = ''comb'' then s
      else reset_domain D old x (fold (exec_from old) (domain_stmts x D) s))"

text \<open>
  Modelled from the spec: a domain declared with \<open>async_reset=True\<close> resets without
  waiting for a clock edge (``assertion of the source immediately forces every stage back
  to 1 (asynchronous, single-event response)''). A domain that the design does not
  declare is the caller's, and its reset is taken at its clock edges.
\<close>

definition async_reset :: "design \<Rightarrow> state \<Rightarrow> state" where
  "async_reset D s =
     fold (\<lambda>cd acc. if cd_async_reset cd then reset_domain D s (cd_name cd) acc else acc)
       (d_domains D) s"

text \<open>
  Modelled from the spec: events. Clock domains are ``arbitrary-phase,
  arbitrary-frequency'', so time is a sequence of events in any order: a clock edge of a
  named domain, or the environment giving a signal a new value. After each event the
  combinational statements settle, asynchronous resets act, and the combinational
  statements settle again.
\<close>

datatype event = Tick string | Drive val int

definition react :: "design \<Rightarrow> state \<Rightarrow> state" where
  "react D s = settle D (async_reset D (settle D s))"

fun step :: "design \<Rightarrow> event \<Rightarrow> state \<Rightarrow> state" where
  "step D (Tick d) s = react D (fold (sync_update D s) (ticked D d) s)"
| "step D (Drive l v) s = react D (assign l v s)"

definition run :: "design \<Rightarrow> event list \<Rightarrow> state \<Rightarrow> state" where
  "run D evs s = fold (step D) evs s"

text \<open>
  Modelled from the spec: the state in which every signal has its reset value (``the
  FFSynchronizer will still be initialized to its reset value'', as the source's
  documentation puts it), and no clock or reset signal is asserted.
\<close>

definition power_on :: state where
  "power_on l = (case l of Sig x \<Rightarrow> wrap (sig_shape x) (sig_reset x) | _ \<Rightarrow> 0)"

text \<open>
  \<open>L\<close> cycles of domain \<open>d\<close>: before edge number \<open>t\<close> the environment gives the signal
  \<open>i\<close> the value \<open>inp t\<close>.
\<close>

definition cycles :: "signal \<Rightarrow> string \<Rightarrow> (nat \<Rightarrow> int) \<Rightarrow> nat \<Rightarrow> event list" where
  "cycles i d inp L = concat (map (\<lambda>t. [Drive (Sig i) (inp t), Tick d]) [0..<L])"

subsection \<open>Example inputs\<close>

text \<open>Concrete signals, generators and platforms, at which the theorems below are applied.\<close>

definition sig_a :: signal where
  "sig_a = \<lparr>sig_uid = 0, sig_shape = unsigned 1, sig_name = Some ''a'', sig_reset = 0,
            sig_reset_less = False\<rparr>"

definition sig_b :: signal where
  "sig_b = \<lparr>sig_uid = 1, sig_shape = unsigned 1, sig_name = Some ''b'', sig_reset = 0,
            sig_reset_less = False\<rparr>"

definition no_hooks :: "unit platform" where
  "no_hooks = \<lparr>get_ff_sync = None, get_async_ff_sync = None\<rparr>"

definition vendor_ff :: "FFSynchronizer \<Rightarrow> string" where
  "vendor_ff s = ''ff_cell_'' @ ff_o_domain s"

definition vendor_async_ff :: "AsyncFFSynchronizer \<Rightarrow> string" where
  "vendor_async_ff s = ''async_cell_'' @ aff_edge s"

definition vendor_hooks :: "string platform" where
  "vendor_hooks = \<lparr>get_ff_sync = Some vendor_ff, get_async_ff_sync = Some vendor_async_ff\<rparr>"

definition ff_delay :: FFSynchronizer where
  "ff_delay = \<lparr>ff_i = sig_a, ff_o = sig_b, ff_reset = 0, ff_reset_less = True,
     ff_o_domain = ''sync'', ff_stages = 2, ff_max_input_delay = PyFloat (1 / 1000)\<rparr>"

definition aff_delay :: AsyncFFSynchronizer where
  "aff_delay = \<lparr>aff_i = sig_a, aff_o = Sig sig_b, aff_domain = ''sync'', aff_stages = 2,
     aff_edge = ''neg'', aff_max_input_delay = PyFloat (1 / 1000)\<rparr>"

text \<open>The left-hand side of a statement.\<close>

fun target :: "stmt \<Rightarrow> val" where
  "target (Assign l r) = l"

text \<open>
  The design of an \<open>FFSynchronizer\<close>: the cascade in domain \<open>d\<close> from \<open>i\<close>, and the output
  \<open>o'\<close> assigned the last register combinationally.
\<close>

definition ff_design :: "string \<Rightarrow> signal \<Rightarrow> signal \<Rightarrow> (nat \<Rightarrow> signal) \<Rightarrow> nat \<Rightarrow> design" where
  "ff_design d i o' g N =
     \<lparr>d_domains = [],
      d_stmts = chain d (Sig i) g N @ [(''comb'', Assign (Sig o') (Sig (g (N - 1))))]\<rparr>"

text \<open>The equations of \<open>step\<close> are unfolded where a proof asks for them.\<close>

declare step.simps [simp del]

text \<open>Three stages, exempt from reset.\<close>

definition ff_plain :: FFSynchronizer where
  "ff_plain = \<lparr>ff_i = sig_a, ff_o = sig_b, ff_reset = 0, ff_reset_less = True,
     ff_o_domain = ''sync'', ff_stages = 3, ff_max_input_delay = PyNone\<rparr>"

text \<open>\<open>FFSynchronizer(stages=3, reset_less=False, reset=1)\<close>, the scenario of the specification.\<close>

definition ff_resettable :: FFSynchronizer where
  "ff_resettable = \<lparr>ff_i = sig_a, ff_o = sig_b, ff_reset = 1, ff_reset_less = False,
     ff_o_domain = ''sync'', ff_stages = 3, ff_max_input_delay = PyNone\<rparr>"

text \<open>
  The outputs that the source gives an \<open>AsyncFFSynchronizer\<close>: a signal of the caller, one
  bit wide (\<open>o : Signal(1), out\<close>) and not the input, or, from \<open>ResetSynchronizer\<close>, the
  reset signal of a domain of the caller. \<open>n\<close> is the counter of signal identities when
  \<open>elaborate\<close> is called.
\<close>

fun output_signal :: "nat \<Rightarrow> signal \<Rightarrow> val \<Rightarrow> bool" where
  "output_signal n i (Sig x) = (sig_uid x < n \<and> x \<noteq> i \<and> sig_shape x = unsigned 1)"
| "output_signal n i (ResetSignal d) = (d \<noteq> ''async_ff'')"
| "output_signal n i _ = False"

text \<open>
  The design of an \<open>AsyncFFSynchronizer\<close>: the private domain, the cascade in it from the
  constant 0, the reset of the private domain assigned \<open>rst\<close>, its clock assigned the clock
  of domain \<open>d\<close>, and the output \<open>ov\<close> assigned the last register.
\<close>

definition aff_design :: "string \<Rightarrow> val \<Rightarrow> val \<Rightarrow> (nat \<Rightarrow> signal) \<Rightarrow> nat \<Rightarrow> design" where
  "aff_design d rst ov g N =
     \<lparr>d_domains = [\<lparr>cd_name = ''async_ff'', cd_async_reset = True, cd_local = True\<rparr>],
      d_stmts = chain ''async_ff'' (Const 0) g N @
        [(''comb'', Assign (ResetSignal ''async_ff'') rst),
         (''comb'', Assign (ClockSignal ''async_ff'') (ClockSignal d)),
         (''comb'', Assign ov (Sig (g (N - 1))))]\<rparr>"

text \<open>
  Two conditions on a state, used in the proofs about \<open>AsyncFFSynchronizer\<close>. In the
  first the input has the value \<open>a\<close>, every register is 1 and so is the output. In the
  second the input has the value \<open>r\<close>, the reset of the private domain is not asserted,
  the first \<open>k\<close> registers are 0 and the others 1, and the output is the last register.
\<close>

definition aff_asserted :: "signal \<Rightarrow> val \<Rightarrow> (nat \<Rightarrow> signal) \<Rightarrow> nat \<Rightarrow> int \<Rightarrow> state \<Rightarrow> bool" where
  "aff_asserted i ov g N a t \<longleftrightarrow>
     t (Sig i) = a \<and> (\<forall>j<N. t (Sig (g j)) = 1) \<and> t ov = 1"

definition aff_released ::
  "signal \<Rightarrow> val \<Rightarrow> (nat \<Rightarrow> signal) \<Rightarrow> nat \<Rightarrow> int \<Rightarrow> nat \<Rightarrow> state \<Rightarrow> bool" where
  "aff_released i ov g N r k t \<longleftrightarrow>
     t (Sig i) = r \<and> t (ResetSignal ''async_ff'') = 0 \<and>
     (\<forall>j<N. t (Sig (g j)) = (if j < k then 0 else 1)) \<and>
     t ov = (if k < N then 1 else 0)"

text \<open>Two stages, on the rising and on the falling edge of the input.\<close>

definition aff_pos :: AsyncFFSynchronizer where
  "aff_pos = \<lparr>aff_i = sig_a, aff_o = Sig sig_b, aff_domain = ''sync'', aff_stages = 2,
     aff_edge = ''pos'', aff_max_input_delay = PyNone\<rparr>"

definition aff_neg :: AsyncFFSynchronizer where
  "aff_neg = \<lparr>aff_i = sig_a, aff_o = Sig sig_b, aff_domain = ''sync'', aff_stages = 2,
     aff_edge = ''neg'', aff_max_input_delay = PyNone\<rparr>"






section \<open>Properties\<close>

subsection \<open>Validation of the stage count\<close>

lemma check_stages_cases:
  "check_stages s =
     (case int_of s of
        None \<Rightarrow> Inl (TypeError ''Synchronization stage count must be a positive integer, not {!r}'')
      | Some k \<Rightarrow>
          if k < 1 then
            Inl (TypeError ''Synchronization stage count must be a positive integer, not {!r}'')
          else if k = 1 then
            Inl (ValueError ''Synchronization stage count may not safely be less than 2'')
          else Inr k)"
  by (auto simp: check_stages_def split: option.splits)

text \<open>
  C3, as stated, fails: for \<open>PulseSynchronizer\<close> a stage count of 1 is an integer less than
  2, and the constructor returns a generator instead of raising \<open>ValueError\<close>.
\<close>

theorem pulse_stage_count_one_counterexample:
  "PulseSynchronizer_init ''r'' ''w'' (PyInt 1) 0 =
     Inr (\<lparr>ps_i = \<lparr>sig_uid = 0, sig_shape = \<lparr>width = 1, signed = False\<rparr>, sig_name = None,
                   sig_reset = 0, sig_reset_less = False\<rparr>,
            ps_o = \<lparr>sig_uid = 1, sig_shape = \<lparr>width = 1, signed = False\<rparr>, sig_name = None,
                   sig_reset = 0, sig_reset_less = False\<rparr>,
            ps_i_domain = ''r'', ps_o_domain = ''w'', ps_sync_stages = PyInt 1\<rparr>, 2)"
  by (simp add: PulseSynchronizer_init_def Signal_def unsigned_def)

text \<open>
  C3, amended. A stage count that is not an integer of at least 1 makes every constructor
  raise \<open>TypeError\<close>. The stage count 1 makes the constructors of \<open>FFSynchronizer\<close>,
  \<open>AsyncFFSynchronizer\<close> and \<open>ResetSynchronizer\<close> raise \<open>ValueError\<close>, while that of
  \<open>PulseSynchronizer\<close> succeeds and the \<open>ValueError\<close> is raised when the generator is
  elaborated. An integer stage count of at least 2 makes every constructor succeed, that
  of \<open>AsyncFFSynchronizer\<close> when the edge is \<open>pos\<close> or \<open>neg\<close>.
\<close>

theorem stage_count_validation:
  "(\<not> (\<exists>k. int_of stages = Some k \<and> 1 \<le> k) \<longrightarrow>
      FFSynchronizer_init i o' d r rl stages mid =
        Inl (TypeError ''Synchronization stage count must be a positive integer, not {!r}'') \<and>
      AsyncFFSynchronizer_init i ov d stages edge mid =
        Inl (TypeError ''Synchronization stage count must be a positive integer, not {!r}'') \<and>
      ResetSynchronizer_init i d stages mid =
        Inl (TypeError ''Synchronization stage count must be a positive integer, not {!r}'') \<and>
      PulseSynchronizer_init d d' stages n =
        Inl (TypeError (''sync_stages must be a positive integer, not '{!r}'' @ [CHR 0x27]))) \<and>
   (int_of stages = Some 1 \<longrightarrow>
      FFSynchronizer_init i o' d r rl stages mid =
        Inl (ValueError ''Synchronization stage count may not safely be less than 2'') \<and>
      AsyncFFSynchronizer_init i ov d stages edge mid =
        Inl (ValueError ''Synchronization stage count may not safely be less than 2'') \<and>
      ResetSynchronizer_init i d stages mid =
        Inl (ValueError ''Synchronization stage count may not safely be less than 2'') \<and>
      (\<exists>ps. PulseSynchronizer_init d d' stages n = Inr (ps, n + 2) \<and>
            ps_sync_stages ps = stages \<and>
            PulseSynchronizer_elaborate ps (p :: 'f platform) (n + 2) =
              Inl (ValueError ''Synchronization stage count may not safely be less than 2''))) \<and>
   (int_of stages = Some k \<and> 2 \<le> k \<longrightarrow>
      FFSynchronizer_init i o' d r rl stages mid =
        Inr \<lparr>ff_i = i, ff_o = o', ff_reset = r, ff_reset_less = rl, ff_o_domain = d,
             ff_stages = k, ff_max_input_delay = mid\<rparr> \<and>
      (edge = ''pos'' \<or> edge = ''neg'' \<longrightarrow>
         AsyncFFSynchronizer_init i ov d stages edge mid =
           Inr \<lparr>aff_i = i, aff_o = ov, aff_domain = d, aff_stages = k, aff_edge = edge,
                aff_max_input_delay = mid\<rparr>) \<and>
      ResetSynchronizer_init i d stages mid =
        Inr \<lparr>rs_arst = i, rs_domain = d, rs_stages = k, rs_max_input_delay = mid\<rparr> \<and>
      (\<exists>ps. PulseSynchronizer_init d d' stages n = Inr (ps, n + 2) \<and>
            ps_sync_stages ps = stages))"
proof (intro conjI impI)
  assume a: "\<not> (\<exists>k. int_of stages = Some k \<and> 1 \<le> k)"
  then have c: "check_stages stages =
      Inl (TypeError ''Synchronization stage count must be a positive integer, not {!r}'')"
    by (auto simp: check_stages_cases split: option.splits)
  show "FFSynchronizer_init i o' d r rl stages mid =
        Inl (TypeError ''Synchronization stage count must be a positive integer, not {!r}'')"
    by (simp add: FFSynchronizer_init_def c)
  show "AsyncFFSynchronizer_init i ov d stages edge mid =
        Inl (TypeError ''Synchronization stage count must be a positive integer, not {!r}'')"
    by (simp add: AsyncFFSynchronizer_init_def c)
  show "ResetSynchronizer_init i d stages mid =
        Inl (TypeError ''Synchronization stage count must be a positive integer, not {!r}'')"
    by (simp add: ResetSynchronizer_init_def c)
  from a show "PulseSynchronizer_init d d' stages n =
        Inl (TypeError (''sync_stages must be a positive integer, not '{!r}'' @ [CHR 0x27]))"
    by (auto simp: PulseSynchronizer_init_def split: option.splits)
next
  assume a: "int_of stages = Some 1"
  then have c: "check_stages stages =
      Inl (ValueError ''Synchronization stage count may not safely be less than 2'')"
    by (simp add: check_stages_cases)
  show "FFSynchronizer_init i o' d r rl stages mid =
        Inl (ValueError ''Synchronization stage count may not safely be less than 2'')"
    by (simp add: FFSynchronizer_init_def c)
  show "AsyncFFSynchronizer_init i ov d stages edge mid =
        Inl (ValueError ''Synchronization stage count may not safely be less than 2'')"
    by (simp add: AsyncFFSynchronizer_init_def c)
  show "ResetSynchronizer_init i d stages mid =
        Inl (ValueError ''Synchronization stage count may not safely be less than 2'')"
    by (simp add: ResetSynchronizer_init_def c)
  show "\<exists>ps. PulseSynchronizer_init d d' stages n = Inr (ps, n + 2) \<and>
            ps_sync_stages ps = stages \<and>
            PulseSynchronizer_elaborate ps p (n + 2) =
              Inl (ValueError ''Synchronization stage count may not safely be less than 2'')"
    using a
    by (simp add: PulseSynchronizer_init_def PulseSynchronizer_elaborate_def Signal_def
        FFSynchronizer_init_def c)
next
  assume a: "int_of stages = Some k \<and> 2 \<le> k"
  then have c: "check_stages stages = Inr k"
    by (simp add: check_stages_cases)
  show "FFSynchronizer_init i o' d r rl stages mid =
        Inr \<lparr>ff_i = i, ff_o = o', ff_reset = r, ff_reset_less = rl, ff_o_domain = d,
             ff_stages = k, ff_max_input_delay = mid\<rparr>"
    by (simp add: FFSynchronizer_init_def c)
  show "ResetSynchronizer_init i d stages mid =
        Inr \<lparr>rs_arst = i, rs_domain = d, rs_stages = k, rs_max_input_delay = mid\<rparr>"
    by (simp add: ResetSynchronizer_init_def c)
  show "\<exists>ps. PulseSynchronizer_init d d' stages n = Inr (ps, n + 2) \<and> ps_sync_stages ps = stages"
    using a by (simp add: PulseSynchronizer_init_def Signal_def)
  assume "edge = ''pos'' \<or> edge = ''neg''"
  then show "AsyncFFSynchronizer_init i ov d stages edge mid =
           Inr \<lparr>aff_i = i, aff_o = ov, aff_domain = d, aff_stages = k, aff_edge = edge,
                aff_max_input_delay = mid\<rparr>"
    by (auto simp add: AsyncFFSynchronizer_init_def c)
qed

text \<open>C3, amended, at a float, at 0, at \<open>True\<close> and at 3.\<close>

theorem stage_count_validation_witness:
  "FFSynchronizer_init sig_a sig_b ''sync'' 0 True (PyFloat 2.5) PyNone =
     Inl (TypeError ''Synchronization stage count must be a positive integer, not {!r}'') \<and>
   PulseSynchronizer_init ''r'' ''w'' (PyInt 0) 2 =
     Inl (TypeError (''sync_stages must be a positive integer, not '{!r}'' @ [CHR 0x27])) \<and>
   ResetSynchronizer_init sig_a ''sync'' (PyBool True) PyNone =
     Inl (ValueError ''Synchronization stage count may not safely be less than 2'') \<and>
   AsyncFFSynchronizer_init sig_a (Sig sig_b) ''sync'' (PyInt 3) ''neg'' PyNone =
     Inr \<lparr>aff_i = sig_a, aff_o = Sig sig_b, aff_domain = ''sync'', aff_stages = 3,
          aff_edge = ''neg'', aff_max_input_delay = PyNone\<rparr>"
proof -
  have "FFSynchronizer_init sig_a sig_b ''sync'' 0 True (PyFloat 2.5) PyNone =
     Inl (TypeError ''Synchronization stage count must be a positive integer, not {!r}'')"
    using stage_count_validation [of "PyFloat 2.5" sig_a sig_b "''sync''" 0 True PyNone "Sig sig_b"
        "''pos''" "''w''" 2 no_hooks 0]
    by simp
  moreover have "PulseSynchronizer_init ''r'' ''w'' (PyInt 0) 2 =
     Inl (TypeError (''sync_stages must be a positive integer, not '{!r}'' @ [CHR 0x27]))"
    using stage_count_validation [of "PyInt 0" sig_a sig_b "''r''" 0 True PyNone "Sig sig_b"
        "''pos''" "''w''" 2 no_hooks 0]
    by simp
  moreover have "ResetSynchronizer_init sig_a ''sync'' (PyBool True) PyNone =
     Inl (ValueError ''Synchronization stage count may not safely be less than 2'')"
    using stage_count_validation [of "PyBool True" sig_a sig_b "''sync''" 0 True PyNone "Sig sig_b"
        "''pos''" "''w''" 2 no_hooks 0]
    by simp
  moreover have "AsyncFFSynchronizer_init sig_a (Sig sig_b) ''sync'' (PyInt 3) ''neg'' PyNone =
     Inr \<lparr>aff_i = sig_a, aff_o = Sig sig_b, aff_domain = ''sync'', aff_stages = 3,
          aff_edge = ''neg'', aff_max_input_delay = PyNone\<rparr>"
    using stage_count_validation [of "PyInt 3" sig_a sig_b "''sync''" 0 True PyNone "Sig sig_b"
        "''neg''" "''w''" 0 no_hooks 3]
    by simp
  ultimately show ?thesis by blast
qed

subsection \<open>The platform's methods and the maximum input delay\<close>

text \<open>
  C6: when a maximum input delay was given and the platform has no method overriding the
  generator, \<open>elaborate\<close> of \<open>FFSynchronizer\<close> and of \<open>AsyncFFSynchronizer\<close> raises
  \<open>NotImplementedError\<close>; nothing is built instead.
\<close>

theorem max_input_delay_unsupported:
  "(ff_max_input_delay ff \<noteq> PyNone \<and> get_ff_sync p = None \<longrightarrow>
      FFSynchronizer_elaborate ff p n =
        Inl (NotImplementedError
          ''Platform '{}' does not support constraining input delay for FFSynchronizer'')) \<and>
   (aff_max_input_delay aff \<noteq> PyNone \<and> get_async_ff_sync p = None \<longrightarrow>
      AsyncFFSynchronizer_elaborate aff p n =
        Inl (NotImplementedError
          ''Platform '{}' does not support constraining input delay for AsyncFFSynchronizer''))"
  by (simp add: FFSynchronizer_elaborate_def AsyncFFSynchronizer_elaborate_def)

text \<open>C6 at a delay of one millisecond on a platform without methods.\<close>

theorem max_input_delay_unsupported_witness:
  "ff_max_input_delay ff_delay \<noteq> PyNone \<and> get_ff_sync no_hooks = None \<and>
   FFSynchronizer_elaborate ff_delay no_hooks 2 =
     Inl (NotImplementedError
       ''Platform '{}' does not support constraining input delay for FFSynchronizer'') \<and>
   aff_max_input_delay aff_delay \<noteq> PyNone \<and> get_async_ff_sync no_hooks = None \<and>
   AsyncFFSynchronizer_elaborate aff_delay no_hooks 2 =
     Inl (NotImplementedError
       ''Platform '{}' does not support constraining input delay for AsyncFFSynchronizer'')"
  using max_input_delay_unsupported [of ff_delay no_hooks 2 aff_delay]
  by (simp add: ff_delay_def aff_delay_def no_hooks_def)

text \<open>
  C9: when the platform has the method \<open>get_ff_sync\<close> (\<open>get_async_ff_sync\<close>),
  \<open>elaborate\<close> returns what the method returns for the generator itself, and creates no
  signal: the counter of signal identities comes back as it was.
\<close>

theorem platform_override_delegates:
  "(get_ff_sync p = Some hook \<longrightarrow>
      FFSynchronizer_elaborate ff p n = Inr (Platform_result (hook ff), n)) \<and>
   (get_async_ff_sync p = Some ahook \<longrightarrow>
      AsyncFFSynchronizer_elaborate aff p n = Inr (Platform_result (ahook aff), n))"
  by (simp add: FFSynchronizer_elaborate_def AsyncFFSynchronizer_elaborate_def)

text \<open>C9 on a platform whose methods name a vendor cell.\<close>

theorem platform_override_delegates_witness:
  "get_ff_sync vendor_hooks = Some vendor_ff \<and>
   FFSynchronizer_elaborate ff_delay vendor_hooks 2 = Inr (Platform_result ''ff_cell_sync'', 2) \<and>
   get_async_ff_sync vendor_hooks = Some vendor_async_ff \<and>
   AsyncFFSynchronizer_elaborate aff_delay vendor_hooks 2 =
     Inr (Platform_result ''async_cell_neg'', 2)"
proof -
  have h: "get_ff_sync vendor_hooks = Some vendor_ff"
    "get_async_ff_sync vendor_hooks = Some vendor_async_ff"
    by (simp_all add: vendor_hooks_def)
  have v: "vendor_ff ff_delay = ''ff_cell_sync''" "vendor_async_ff aff_delay = ''async_cell_neg''"
    by (simp_all add: vendor_ff_def vendor_async_ff_def ff_delay_def aff_delay_def)
  have "FFSynchronizer_elaborate ff_delay vendor_hooks 2 =
      Inr (Platform_result (vendor_ff ff_delay), 2)"
    "AsyncFFSynchronizer_elaborate aff_delay vendor_hooks 2 =
      Inr (Platform_result (vendor_async_ff aff_delay), 2)"
    using platform_override_delegates [of vendor_hooks vendor_ff ff_delay 2 vendor_async_ff
        aff_delay] h
    by blast+
  with h v show ?thesis by simp
qed







subsection \<open>The structure that \<open>elaborate\<close> builds\<close>

lemma comprehension_stage_aux:
  "comprehension (\<lambda>index. Signal shp (Some (''stage'' @ str_nat index)) r rl) [a..<a + c] (n + a)
   = (map (stage shp r rl n) [a..<a + c], n + a + c)"
proof (induction c arbitrary: a)
  case 0
  then show ?case by simp
next
  case (Suc c)
  have u: "[a..<a + Suc c] = a # [Suc a..<Suc a + c]"
    by (simp add: upt_conv_Cons)
  show ?case
    using Suc.IH [of "Suc a"]
    by (simp only: u) (simp add: Signal_def stage_def)
qed

lemma comprehension_stage:
  "comprehension (\<lambda>index. Signal shp (Some (''stage'' @ str_nat index)) r rl) (range k) n
   = (map (stage shp r rl n) [0..<nat k], n + nat k)"
  using comprehension_stage_aux [of shp r rl 0 "nat k" n] by (simp add: range_def)

lemma fold_d_add:
  "fold (\<lambda>(i, o'). d_add d (Assign (Sig o') i)) ps m =
   m\<lparr>m_stmts := m_stmts m @ map (\<lambda>(i, o'). (d, Assign (Sig o') i)) ps\<rparr>"
  by (induction ps arbitrary: m) (auto simp: d_add_def)

lemma zip_chain:
  "map (\<lambda>(i, o'). (d, Assign (Sig o') i)) (zip (src # map (Sig \<circ> g) [0..<N]) (map g [0..<N]))
   = chain d src g N"
  by (rule nth_equalityI) (auto simp: chain_def nth_Cons')

lemma last_map_upt: "0 < N \<Longrightarrow> last (map g [0..<N]) = g (N - 1)"
  by (simp add: last_map)

lemma ff_elaborate_built:
  assumes "get_ff_sync p = None" "ff_max_input_delay ff = PyNone" "1 \<le> ff_stages ff"
  shows "FFSynchronizer_elaborate ff p n =
    Inr (Built \<lparr>m_domains = [],
                 m_stmts =
                   chain (ff_o_domain ff) (Sig (ff_i ff))
                     (stage (sig_shape (ff_i ff)) (ff_reset ff) (ff_reset_less ff) n)
                     (nat (ff_stages ff)) @
                   [(''comb'', Assign (Sig (ff_o ff))
                       (Sig (stage (sig_shape (ff_i ff)) (ff_reset ff) (ff_reset_less ff) n
                               (nat (ff_stages ff) - 1))))],
                 m_submodules = []\<rparr>,
         n + nat (ff_stages ff))"
proof -
  have ne: "[0..<nat (ff_stages ff)] \<noteq> []" using assms(3) by simp
  show ?thesis
    unfolding FFSynchronizer_elaborate_def comprehension_stage
    using ne
    by (simp add: assms(1,2) fold_d_add zip_chain last_map_upt Module_def d_add_def)
qed

lemma aff_elaborate_built:
  assumes "get_async_ff_sync p = None" "aff_max_input_delay aff = PyNone" "1 \<le> aff_stages aff"
  shows "AsyncFFSynchronizer_elaborate aff p n =
    Inr (Built \<lparr>m_domains = [\<lparr>cd_name = ''async_ff'', cd_async_reset = True, cd_local = True\<rparr>],
                 m_stmts =
                   chain ''async_ff'' (Const 0) (stage (unsigned 1) 1 False n)
                     (nat (aff_stages aff)) @
                   [(''comb'', Assign (ResetSignal ''async_ff'')
                       (if aff_edge aff = ''pos'' then Sig (aff_i aff) else Not (Sig (aff_i aff)))),
                    (''comb'', Assign (ClockSignal ''async_ff'') (ClockSignal (aff_domain aff))),
                    (''comb'', Assign (aff_o aff)
                       (Sig (stage (unsigned 1) 1 False n (nat (aff_stages aff) - 1))))],
                 m_submodules = []\<rparr>,
         n + nat (aff_stages aff))"
proof -
  have ne: "[0..<nat (aff_stages aff)] \<noteq> []" using assms(3) by simp
  show ?thesis
    unfolding AsyncFFSynchronizer_elaborate_def comprehension_stage
    using ne
    by (simp add: assms(1,2) fold_d_add zip_chain last_map_upt Module_def d_add_def domains_add_def)
qed

subsection \<open>Executing statements\<close>

lemma assign_other: "l' \<noteq> l \<Longrightarrow> assign l v s l' = s l'"
  by (cases l) auto

lemma assign_twice: "l \<noteq> l' \<Longrightarrow> assign l v (assign l' v' s) l = assign l v s l"
  by (cases l; cases l') auto

lemma fold_exec_from_other:
  "l \<notin> target ` set ss \<Longrightarrow> fold (exec_from old) ss s l = s l"
proof (induction ss arbitrary: s)
  case Nil
  then show ?case by simp
next
  case (Cons st ss)
  obtain l' r' where st: "st = Assign l' r'" by (cases st)
  from Cons.prems have "l \<noteq> l'" "l \<notin> target ` set ss" by (auto simp: st)
  then show ?case using Cons.IH by (simp add: st assign_other)
qed

lemma fold_exec_from_hit:
  "distinct (map target ss) \<Longrightarrow> Assign l r \<in> set ss \<Longrightarrow>
   fold (exec_from old) ss s l = assign l (eval old r) s l"
proof (induction ss arbitrary: s)
  case Nil
  then show ?case by simp
next
  case (Cons st ss)
  obtain l' r' where st: "st = Assign l' r'" by (cases st)
  show ?case
  proof (cases "st = Assign l r")
    case True
    with Cons.prems have "l \<notin> target ` set ss" by auto
    then show ?thesis using True by (simp add: fold_exec_from_other)
  next
    case False
    with Cons.prems have m: "Assign l r \<in> set ss" by simp
    then have "l \<in> target ` set ss" by force
    with Cons.prems(1) have ne: "l \<noteq> l'" by (auto simp: st)
    from Cons.prems(1) have d: "distinct (map target ss)" by simp
    show ?thesis using Cons.IH [OF d m] ne by (simp add: st assign_twice)
  qed
qed

lemma fold_reset_of_other:
  "l \<notin> target ` set ss \<Longrightarrow> fold reset_of ss s l = s l"
proof (induction ss arbitrary: s)
  case Nil
  then show ?case by simp
next
  case (Cons st ss)
  obtain l' r' where st: "st = Assign l' r'" by (cases st)
  from Cons.prems have ne: "l \<noteq> l'" and "l \<notin> target ` set ss" by (auto simp: st)
  then have "fold reset_of ss (reset_of st s) l = reset_of st s l" using Cons.IH by simp
  moreover have "reset_of st s l = s l" using ne by (cases l') (auto simp: st)
  ultimately show ?case by simp
qed

lemma fold_reset_of_hit:
  "distinct (map target ss) \<Longrightarrow> Assign (Sig x) r \<in> set ss \<Longrightarrow>
   fold reset_of ss s (Sig x) =
     (if sig_reset_less x then s (Sig x) else wrap (sig_shape x) (sig_reset x))"
proof (induction ss arbitrary: s)
  case Nil
  then show ?case by simp
next
  case (Cons st ss)
  obtain l' r' where st: "st = Assign l' r'" by (cases st)
  show ?case
  proof (cases "st = Assign (Sig x) r")
    case True
    with Cons.prems have "Sig x \<notin> target ` set ss" by auto
    then show ?thesis using True by (simp add: fold_reset_of_other)
  next
    case False
    with Cons.prems have m: "Assign (Sig x) r \<in> set ss" by simp
    then have "Sig x \<in> target ` set ss" by force
    with Cons.prems(1) have ne: "Sig x \<noteq> l'" by (auto simp: st)
    from Cons.prems(1) have d: "distinct (map target ss)" by simp
    have "reset_of st s (Sig x) = s (Sig x)" using ne by (cases l') (auto simp: st)
    then show ?thesis using Cons.IH [OF d m, of "reset_of st s"] by simp
  qed
qed

lemma funpow_idem: "f (f s) = f s \<Longrightarrow> 0 < k \<Longrightarrow> (f ^^ k) s = f s"
proof (induction k)
  case 0
  then show ?case by simp
next
  case (Suc k)
  then show ?case by (cases k) auto
qed


lemma stage_uid: "sig_uid (stage shp r rl n k) = n + k"
  by (simp add: stage_def)

lemma domain_stmts_chain:
  "map snd (filter (\<lambda>(x, st). x = d') (chain d src g N)) =
     (if d' = d then map (\<lambda>k. Assign (Sig (g k)) (if k = 0 then src else Sig (g (k - 1)))) [0..<N]
      else [])"
  by (induction N) (auto simp: chain_def)

lemma chain_targets_distinct:
  "inj_on g {..<N} \<Longrightarrow>
   distinct (map target
     (map (\<lambda>k. Assign (Sig (g k)) (if k = 0 then src else Sig (g (k - 1)))) [0..<N]))"
  by (auto simp: distinct_map comp_def inj_on_def)

subsection \<open>The register chain of \<open>FFSynchronizer\<close> at a clock edge\<close>

lemma inline_no_submodules:
  "inline p \<lparr>m_domains = ds, m_stmts = ss, m_submodules = []\<rparr> n =
   Inr (\<lparr>d_domains = ds, d_stmts = ss\<rparr>, n)"
  by (simp add: inline_def)

lemma ff_comb_stmts:
  "d \<noteq> ''comb'' \<Longrightarrow>
   domain_stmts ''comb'' (ff_design d i o' g N) = [Assign (Sig o') (Sig (g (N - 1)))]"
  by (simp add: domain_stmts_def ff_design_def domain_stmts_chain)

lemma ff_domain_stmts:
  "d \<noteq> ''comb'' \<Longrightarrow>
   domain_stmts d (ff_design d i o' g N) =
     map (\<lambda>k. Assign (Sig (g k)) (if k = 0 then Sig i else Sig (g (k - 1)))) [0..<N]"
  by (simp add: domain_stmts_def ff_design_def domain_stmts_chain)

lemma ff_react:
  assumes "d \<noteq> ''comb''" "g (N - 1) \<noteq> o'"
  shows "react (ff_design d i o' g N) s =
         s(Sig o' := wrap (sig_shape o') (s (Sig (g (N - 1)))))"
proof -
  have "async_reset (ff_design d i o' g N) = (\<lambda>s. s)"
    by (simp add: async_reset_def ff_design_def fun_eq_iff)
  then show ?thesis
    using assms
    by (simp add: react_def settle_def comb_pass_def ff_comb_stmts)
qed

lemma ff_ticked: "d \<noteq> ''comb'' \<Longrightarrow> ticked (ff_design d i o' g N) d = [d]"
  by (simp add: ticked_def ff_comb_stmts)

lemma ff_sync_update_stage:
  assumes "d \<noteq> ''comb''" "inj_on g {..<N}" "k < N"
  shows "sync_update (ff_design d i o' g N) s d s (Sig (g k)) =
     (if s (ResetSignal d) \<noteq> 0 \<and> \<not> sig_reset_less (g k)
      then wrap (sig_shape (g k)) (sig_reset (g k))
      else wrap (sig_shape (g k)) (if k = 0 then s (Sig i) else s (Sig (g (k - 1)))))"
proof -
  let ?ss = "map (\<lambda>k. Assign (Sig (g k)) (if k = 0 then Sig i else Sig (g (k - 1)))) [0..<N]"
  have dist: "distinct (map target ?ss)"
    using assms(2) by (rule chain_targets_distinct)
  have mem: "Assign (Sig (g k)) (if k = 0 then Sig i else Sig (g (k - 1))) \<in> set ?ss"
    using assms(3) by auto
  have e: "fold (exec_from s) ?ss s (Sig (g k)) =
           wrap (sig_shape (g k)) (if k = 0 then s (Sig i) else s (Sig (g (k - 1))))"
    using fold_exec_from_hit [OF dist mem, of s s] by simp
  have r: "fold reset_of ?ss (fold (exec_from s) ?ss s) (Sig (g k)) =
           (if sig_reset_less (g k) then fold (exec_from s) ?ss s (Sig (g k))
            else wrap (sig_shape (g k)) (sig_reset (g k)))"
    using fold_reset_of_hit [OF dist mem] by simp
  show ?thesis
    using assms(1) e r
    by (simp add: sync_update_def reset_domain_def ff_domain_stmts)
qed

lemma ff_sync_update_other:
  assumes "d \<noteq> ''comb''" "l \<notin> (\<lambda>k. Sig (g k)) ` {..<N}"
  shows "sync_update (ff_design d i o' g N) s d s l = s l"
proof -
  let ?ss = "map (\<lambda>k. Assign (Sig (g k)) (if k = 0 then Sig i else Sig (g (k - 1)))) [0..<N]"
  have t: "l \<notin> target ` set ?ss" using assms(2) by (auto simp: image_iff)
  show ?thesis
    using assms(1) fold_exec_from_other [OF t] fold_reset_of_other [OF t]
    by (simp add: sync_update_def reset_domain_def ff_domain_stmts)
qed

lemma ff_step_tick_eq:
  assumes "d \<noteq> ''comb''" "0 < N" "\<forall>k<N. g k \<noteq> i \<and> g k \<noteq> o'"
  shows "step (ff_design d i o' g N) (Tick d) s =
     (sync_update (ff_design d i o' g N) s d s)
       (Sig o' := wrap (sig_shape o')
          (sync_update (ff_design d i o' g N) s d s (Sig (g (N - 1)))))"
proof -
  have "g (N - 1) \<noteq> o'" using assms(2,3) by simp
  then show ?thesis using assms(1) by (simp add: step.simps ff_ticked ff_react)
qed

lemma ff_step_tick_stage:
  assumes "d \<noteq> ''comb''" "inj_on g {..<N}" "\<forall>k<N. g k \<noteq> i \<and> g k \<noteq> o'" "k < N"
  shows "step (ff_design d i o' g N) (Tick d) s (Sig (g k)) =
           (if s (ResetSignal d) \<noteq> 0 \<and> \<not> sig_reset_less (g k)
            then wrap (sig_shape (g k)) (sig_reset (g k))
            else wrap (sig_shape (g k)) (if k = 0 then s (Sig i) else s (Sig (g (k - 1)))))"
proof -
  have N: "0 < N" using assms(4) by simp
  have "g k \<noteq> o'" using assms(3,4) by simp
  then show ?thesis
    unfolding ff_step_tick_eq [OF assms(1) N assms(3)]
    using ff_sync_update_stage [OF assms(1,2,4), of i o' s]
    by simp
qed

lemma ff_step_tick_other:
  assumes "d \<noteq> ''comb''" "0 < N" "\<forall>k<N. g k \<noteq> i \<and> g k \<noteq> o'"
    "l \<noteq> Sig o'" "l \<notin> (\<lambda>k. Sig (g k)) ` {..<N}"
  shows "step (ff_design d i o' g N) (Tick d) s l = s l"
  unfolding ff_step_tick_eq [OF assms(1,2,3)]
  using assms(4) ff_sync_update_other [OF assms(1,5), of i o' s]
  by simp

lemma ff_step_tick_out:
  assumes "d \<noteq> ''comb''" "0 < N" "\<forall>k<N. g k \<noteq> i \<and> g k \<noteq> o'"
  shows "step (ff_design d i o' g N) (Tick d) s (Sig o') =
         wrap (sig_shape o') (step (ff_design d i o' g N) (Tick d) s (Sig (g (N - 1))))"
proof -
  have "g (N - 1) \<noteq> o'" using assms(2,3) by simp
  then show ?thesis unfolding ff_step_tick_eq [OF assms] by simp
qed

lemma ff_step_drive_eq:
  assumes "d \<noteq> ''comb''" "0 < N" "\<forall>k<N. g k \<noteq> i \<and> g k \<noteq> o'"
  shows "step (ff_design d i o' g N) (Drive (Sig i) v) s =
     (s(Sig i := wrap (sig_shape i) v))
       (Sig o' := wrap (sig_shape o') (s (Sig (g (N - 1)))))"
proof -
  have "g (N - 1) \<noteq> o'" "g (N - 1) \<noteq> i" using assms(2,3) by simp_all
  then show ?thesis using assms(1) by (simp add: step.simps ff_react)
qed

lemma run_append: "run D (xs @ ys) s = run D ys (run D xs s)"
  by (simp add: run_def)

lemma cycles_Suc: "cycles i d inp (Suc L) = cycles i d inp L @ [Drive (Sig i) (inp L), Tick d]"
  by (simp add: cycles_def)

lemma ff_cycle:
  fixes s :: state and v :: int
  assumes "d \<noteq> ''comb''" "inj_on g {..<N}" "0 < N" "\<forall>k<N. g k \<noteq> i \<and> g k \<noteq> o'" "i \<noteq> o'"
  defines "D \<equiv> ff_design d i o' g N"
  defines "s' \<equiv> run D [Drive (Sig i) v, Tick d] s"
  shows "s' (ResetSignal d) = s (ResetSignal d)"
    and "k < N \<Longrightarrow> s' (Sig (g k)) =
           (if s (ResetSignal d) \<noteq> 0 \<and> \<not> sig_reset_less (g k)
            then wrap (sig_shape (g k)) (sig_reset (g k))
            else wrap (sig_shape (g k))
                   (if k = 0 then wrap (sig_shape i) v else s (Sig (g (k - 1)))))"
    and "s' (Sig o') = wrap (sig_shape o') (s' (Sig (g (N - 1))))"
proof -
  let ?s1 = "step D (Drive (Sig i) v) s"
  have s': "s' = step D (Tick d) ?s1" by (simp add: s'_def run_def)
  have s1: "?s1 = (s(Sig i := wrap (sig_shape i) v))
       (Sig o' := wrap (sig_shape o') (s (Sig (g (N - 1)))))"
    unfolding D_def by (rule ff_step_drive_eq [OF assms(1,3,4)])
  have r1: "?s1 (ResetSignal d) = s (ResetSignal d)" by (simp add: s1)
  have "ResetSignal d \<notin> (\<lambda>k. Sig (g k)) ` {..<N}" by auto
  then show "s' (ResetSignal d) = s (ResetSignal d)"
    unfolding s' D_def using ff_step_tick_other [OF assms(1,3,4), of "ResetSignal d" ?s1] r1
    by (simp add: D_def)
  show "s' (Sig o') = wrap (sig_shape o') (s' (Sig (g (N - 1))))"
    unfolding s' D_def by (rule ff_step_tick_out [OF assms(1,3,4)])
  assume k: "k < N"
  have i1: "?s1 (Sig i) = wrap (sig_shape i) v" using assms(5) by (simp add: s1)
  have g1: "0 < k \<Longrightarrow> ?s1 (Sig (g (k - 1))) = s (Sig (g (k - 1)))"
    using assms(4) k by (simp add: s1)
  show "s' (Sig (g k)) =
           (if s (ResetSignal d) \<noteq> 0 \<and> \<not> sig_reset_less (g k)
            then wrap (sig_shape (g k)) (sig_reset (g k))
            else wrap (sig_shape (g k))
                   (if k = 0 then wrap (sig_shape i) v else s (Sig (g (k - 1)))))"
    unfolding s' D_def
    using ff_step_tick_stage [OF assms(1,2,4) k, of ?s1] r1 i1 g1
    by (auto simp: D_def)
qed

lemma ff_run_cycles:
  fixes s :: state
  assumes A: "d \<noteq> ''comb''" "inj_on g {..<N}" "0 < N" "\<forall>k<N. g k \<noteq> i \<and> g k \<noteq> o'" "i \<noteq> o'"
    and shp: "\<forall>k<N. sig_shape (g k) = sig_shape i"
    and rst: "(\<forall>k<N. sig_reset_less (g k)) \<or> s (ResetSignal d) = 0"
    and inp: "\<forall>t<L. wrap (sig_shape i) (inp t) = inp t"
  shows "run (ff_design d i o' g N) (cycles i d inp L) s (ResetSignal d) = s (ResetSignal d) \<and>
         (\<forall>k<N. k < L \<longrightarrow>
            run (ff_design d i o' g N) (cycles i d inp L) s (Sig (g k)) = inp (L - 1 - k))"
  using inp
proof (induction L)
  case 0
  then show ?case by (simp add: cycles_def run_def)
next
  case (Suc L)
  let ?D = "ff_design d i o' g N"
  let ?sL = "run ?D (cycles i d inp L) s"
  let ?s' = "run ?D [Drive (Sig i) (inp L), Tick d] ?sL"
  have run: "run ?D (cycles i d inp (Suc L)) s = ?s'"
    by (simp add: cycles_Suc run_append)
  from Suc have IH: "?sL (ResetSignal d) = s (ResetSignal d)"
    "\<And>k. k < N \<Longrightarrow> k < L \<Longrightarrow> ?sL (Sig (g k)) = inp (L - 1 - k)"
    by simp_all
  have r: "?s' (ResetSignal d) = s (ResetSignal d)"
    using ff_cycle(1) [OF A, where s = ?sL and v = "inp L"] IH(1) by simp
  have v: "?s' (Sig (g k)) = inp (Suc L - 1 - k)" if k: "k < N" "k < Suc L" for k
  proof -
    have nr: "\<not> (?sL (ResetSignal d) \<noteq> 0 \<and> \<not> sig_reset_less (g k))"
      using rst k(1) IH(1) by auto
    have e: "?s' (Sig (g k)) =
        wrap (sig_shape i) (if k = 0 then wrap (sig_shape i) (inp L) else ?sL (Sig (g (k - 1))))"
      using ff_cycle(2) [OF A k(1), where s = ?sL and v = "inp L"] nr shp k(1) by simp
    show ?thesis
    proof (cases "k = 0")
      case True
      then show ?thesis using e Suc.prems by simp
    next
      case False
      then have "k - 1 < N" "k - 1 < L" using k by simp_all
      then have "?sL (Sig (g (k - 1))) = inp (L - 1 - (k - 1))" by (rule IH(2))
      moreover have "L - 1 - (k - 1) = L - k" using False k by simp
      moreover have "wrap (sig_shape i) (inp (L - k)) = inp (L - k)"
        using Suc.prems False by simp
      ultimately show ?thesis using e False by simp
    qed
  qed
  show ?case using r v by (simp only: run) simp
qed

lemma ff_run_cycles_out:
  fixes s :: state
  assumes A: "d \<noteq> ''comb''" "inj_on g {..<N}" "0 < N" "\<forall>k<N. g k \<noteq> i \<and> g k \<noteq> o'" "i \<noteq> o'"
    and shp: "\<forall>k<N. sig_shape (g k) = sig_shape i"
    and rst: "(\<forall>k<N. sig_reset_less (g k)) \<or> s (ResetSignal d) = 0"
    and inp: "\<forall>t<L. wrap (sig_shape i) (inp t) = inp t"
    and L: "N \<le> L"
  shows "run (ff_design d i o' g N) (cycles i d inp L) s (Sig o') =
         wrap (sig_shape o') (inp (L - N))"
proof -
  let ?D = "ff_design d i o' g N"
  obtain L' where L': "L = Suc L'" using L A(3) by (cases L) auto
  let ?sL = "run ?D (cycles i d inp L') s"
  have run: "run ?D (cycles i d inp L) s = run ?D [Drive (Sig i) (inp L'), Tick d] ?sL"
    by (simp add: L' cycles_Suc run_append)
  have "run ?D (cycles i d inp L) s (Sig o') =
        wrap (sig_shape o') (run ?D (cycles i d inp L) s (Sig (g (N - 1))))"
    unfolding run using ff_cycle(3) [OF A, where s = ?sL and v = "inp L'"] .
  moreover have "run ?D (cycles i d inp L) s (Sig (g (N - 1))) = inp (L - 1 - (N - 1))"
    using ff_run_cycles [where inp = inp and L = L and s = s and g = g, OF A shp rst inp] A(3) L
    by simp
  moreover have "L - 1 - (N - 1) = L - N" using A(3) L by simp
  ultimately show ?thesis by simp
qed

lemma stage_facts:
  "inj_on (stage shp r rl n) A"
  "sig_uid x < n \<Longrightarrow> stage shp r rl n k \<noteq> x"
  "sig_shape (stage shp r rl n k) = shp"
  "sig_reset (stage shp r rl n k) = r"
  "sig_reset_less (stage shp r rl n k) = rl"
  by (auto simp: stage_def inj_on_def)

text \<open>
  C2: on a platform without \<open>get_ff_sync\<close> and with no maximum input delay, \<open>elaborate\<close>
  of an \<open>FFSynchronizer\<close> returns a module whose statements are exactly: for each of the
  \<open>stages\<close> registers, all different, one assignment in the output domain, register 0 from
  the input \<open>i\<close> and register \<open>k > 0\<close> from register \<open>k - 1\<close>; and one combinational
  assignment of the last register to the output \<open>o\<close>. In the design made of it, after \<open>L\<close>
  cycles of the output domain, \<open>L\<close> at least \<open>stages\<close>, the output has the value that the
  input had in cycle \<open>L - stages\<close>: the input delayed by exactly \<open>stages\<close> clock edges, so an
  input held for \<open>stages\<close> cycles is at the output. The generator is as its constructor
  leaves it (at least two stages); \<open>i\<close> and \<open>o\<close> are two signals of one shape that existed
  before \<open>elaborate\<close> was called; the output domain is a clock domain; the input values fit
  the shape of \<open>i\<close>; and the chain is exempt from reset or the reset of the output
  domain is not asserted.
\<close>

theorem ff_synchronizer_delay:
  assumes "get_ff_sync p = None" and "ff_max_input_delay ff = PyNone" and "2 \<le> ff_stages ff"
    and "sig_uid (ff_i ff) < n" and "sig_uid (ff_o ff) < n" and "ff_i ff \<noteq> ff_o ff"
    and "ff_o_domain ff \<noteq> ''comb''" and "sig_shape (ff_o ff) = sig_shape (ff_i ff)"
  shows "\<exists>m D.
    FFSynchronizer_elaborate ff p n = Inr (Built m, n + nat (ff_stages ff)) \<and>
    m_domains m = [] \<and> m_submodules m = [] \<and>
    m_stmts m =
      chain (ff_o_domain ff) (Sig (ff_i ff))
        (stage (sig_shape (ff_i ff)) (ff_reset ff) (ff_reset_less ff) n) (nat (ff_stages ff)) @
      [(''comb'', Assign (Sig (ff_o ff))
          (Sig (stage (sig_shape (ff_i ff)) (ff_reset ff) (ff_reset_less ff) n
                  (nat (ff_stages ff) - 1))))] \<and>
    distinct (map (stage (sig_shape (ff_i ff)) (ff_reset ff) (ff_reset_less ff) n)
                [0..<nat (ff_stages ff)]) \<and>
    inline p m (n + nat (ff_stages ff)) = Inr (D, n + nat (ff_stages ff)) \<and>
    (\<forall>inp L s.
       nat (ff_stages ff) \<le> L \<and>
       (\<forall>t<L. wrap (sig_shape (ff_i ff)) (inp t) = inp t) \<and>
       (ff_reset_less ff \<or> s (ResetSignal (ff_o_domain ff)) = 0) \<longrightarrow>
       run D (cycles (ff_i ff) (ff_o_domain ff) inp L) s (Sig (ff_o ff)) =
         inp (L - nat (ff_stages ff)))"
proof -
  let ?N = "nat (ff_stages ff)"
  let ?g = "stage (sig_shape (ff_i ff)) (ff_reset ff) (ff_reset_less ff) n"
  let ?d = "ff_o_domain ff"
  let ?D = "ff_design ?d (ff_i ff) (ff_o ff) ?g ?N"
  let ?m = "\<lparr>m_domains = [], m_stmts = d_stmts ?D, m_submodules = []\<rparr>"
  have N: "0 < ?N" using assms(3) by simp
  have el: "FFSynchronizer_elaborate ff p n = Inr (Built ?m, n + ?N)"
    using ff_elaborate_built [OF assms(1,2), of n] assms(3) by (simp add: ff_design_def)
  have inl: "inline p ?m (n + ?N) = Inr (?D, n + ?N)"
    by (simp add: inline_no_submodules ff_design_def)
  have inj: "inj_on ?g {..<?N}" by (rule stage_facts(1))
  have ne: "\<forall>k<?N. ?g k \<noteq> ff_i ff \<and> ?g k \<noteq> ff_o ff"
    using assms(4,5) by (simp add: stage_facts)
  have beh: "run ?D (cycles (ff_i ff) ?d inp L) s (Sig (ff_o ff)) = inp (L - ?N)"
    if h: "?N \<le> L" "\<forall>t<L. wrap (sig_shape (ff_i ff)) (inp t) = inp t"
      "ff_reset_less ff \<or> s (ResetSignal ?d) = 0" for inp L and s :: state
  proof -
    have rst: "(\<forall>k<?N. sig_reset_less (?g k)) \<or> s (ResetSignal ?d) = 0"
      using h(3) by (simp add: stage_facts)
    have "run ?D (cycles (ff_i ff) ?d inp L) s (Sig (ff_o ff)) =
          wrap (sig_shape (ff_o ff)) (inp (L - ?N))"
      by (rule ff_run_cycles_out [where inp = inp and L = L and s = s and g = ?g,
            OF assms(7) inj N ne assms(6) _ rst h(2) h(1)])
        (simp add: stage_facts)
    moreover have "L - ?N < L" using N h(1) by simp
    ultimately show ?thesis using h(2) assms(8) by simp
  qed
  have dist: "distinct (map ?g [0..<?N])"
    by (simp add: distinct_map stage_facts(1))
  show ?thesis
    apply (rule exI [of _ ?m], rule exI [of _ ?D])
    using el inl beh dist by (simp add: ff_design_def)
qed

lemma chain_nth:
  "k < N \<Longrightarrow> chain d src g N ! k = (d, Assign (Sig (g k)) (if k = 0 then src else Sig (g (k - 1))))"
  by (simp add: chain_def)

lemma chain_length: "length (chain d src g N) = N"
  by (simp add: chain_def)

text \<open>
  C2 at three stages: after four cycles the output has the input of cycle 1.
\<close>

theorem ff_synchronizer_delay_witness:
  "get_ff_sync no_hooks = None \<and> ff_max_input_delay ff_plain = PyNone \<and>
   2 \<le> ff_stages ff_plain \<and> sig_uid (ff_i ff_plain) < 2 \<and> sig_uid (ff_o ff_plain) < 2 \<and>
   ff_i ff_plain \<noteq> ff_o ff_plain \<and> ff_o_domain ff_plain \<noteq> ''comb'' \<and>
   sig_shape (ff_o ff_plain) = sig_shape (ff_i ff_plain) \<and>
   (\<exists>m D. FFSynchronizer_elaborate ff_plain no_hooks 2 = Inr (Built m, 5) \<and>
          inline no_hooks m 5 = Inr (D, 5) \<and>
          run D (cycles sig_a ''sync'' (\<lambda>t. if t = 1 then 1 else 0) 4) power_on (Sig sig_b) = 1)"
proof -
  have h: "get_ff_sync no_hooks = None" "ff_max_input_delay ff_plain = PyNone"
    "2 \<le> ff_stages ff_plain" "sig_uid (ff_i ff_plain) < 2" "sig_uid (ff_o ff_plain) < 2"
    "ff_i ff_plain \<noteq> ff_o ff_plain" "ff_o_domain ff_plain \<noteq> ''comb''"
    "sig_shape (ff_o ff_plain) = sig_shape (ff_i ff_plain)"
    by (simp_all add: no_hooks_def ff_plain_def sig_a_def sig_b_def)
  have f: "ff_i ff_plain = sig_a" "ff_o ff_plain = sig_b" "ff_o_domain ff_plain = ''sync''"
    "nat (ff_stages ff_plain) = 3" "ff_reset_less ff_plain"
    by (simp_all add: ff_plain_def)
  have w: "\<forall>t<4. wrap (sig_shape sig_a) (if t = 1 then 1 else 0) = (if t = (1::nat) then 1 else 0)"
    by (simp add: wrap_def sig_a_def unsigned_def)
  from ff_synchronizer_delay [OF h]
  obtain m D where e: "FFSynchronizer_elaborate ff_plain no_hooks 2 = Inr (Built m, 5)"
    and i: "inline no_hooks m 5 = Inr (D, 5)"
    and b: "\<And>inp L s. 3 \<le> L \<and> (\<forall>t<L. wrap (sig_shape sig_a) (inp t) = inp t) \<longrightarrow>
        run D (cycles sig_a ''sync'' inp L) s (Sig sig_b) = inp (L - 3)"
    by (auto simp: f)
  have "run D (cycles sig_a ''sync'' (\<lambda>t. if t = 1 then 1 else 0) 4) power_on (Sig sig_b) = 1"
    using b [of 4 "\<lambda>t. if t = 1 then 1 else 0" power_on] w by simp
  with h e i show ?thesis by blast
qed

text \<open>
  C8: the module that \<open>elaborate\<close> of an \<open>FFSynchronizer\<close> returns has \<open>stages + 1\<close>
  statements, and statement \<open>k < stages\<close> assigns, in the output domain, a register that is
  a new signal with the shape of the input \<open>i\<close>, the configured reset value and the
  configured exemption from reset. When the chain is not exempt, a clock edge of the output
  domain with the domain's reset asserted leaves the configured reset value in every
  register; when it is exempt, what a clock edge leaves in a register does not depend on
  the reset signal of the domain. The reset value fits the shape of \<open>i\<close>.
\<close>

theorem ff_stages_shape_and_reset:
  assumes "get_ff_sync p = None" and "ff_max_input_delay ff = PyNone" and "2 \<le> ff_stages ff"
    and "sig_uid (ff_i ff) < n" and "sig_uid (ff_o ff) < n" and "ff_i ff \<noteq> ff_o ff"
    and "ff_o_domain ff \<noteq> ''comb''"
    and "wrap (sig_shape (ff_i ff)) (ff_reset ff) = ff_reset ff"
  shows "\<exists>m D.
    FFSynchronizer_elaborate ff p n = Inr (Built m, n + nat (ff_stages ff)) \<and>
    inline p m (n + nat (ff_stages ff)) = Inr (D, n + nat (ff_stages ff)) \<and>
    length (m_stmts m) = nat (ff_stages ff) + 1 \<and>
    (\<forall>k<nat (ff_stages ff). \<exists>x rhs.
       m_stmts m ! k = (ff_o_domain ff, Assign (Sig x) rhs) \<and>
       sig_uid x = n + k \<and>
       sig_shape x = sig_shape (ff_i ff) \<and>
       sig_reset x = ff_reset ff \<and>
       sig_reset_less x = ff_reset_less ff \<and>
       (\<forall>s. \<not> ff_reset_less ff \<and> s (ResetSignal (ff_o_domain ff)) \<noteq> 0 \<longrightarrow>
            step D (Tick (ff_o_domain ff)) s (Sig x) = ff_reset ff) \<and>
       (\<forall>s v. ff_reset_less ff \<longrightarrow>
            step D (Tick (ff_o_domain ff)) (s(ResetSignal (ff_o_domain ff) := v)) (Sig x) =
            step D (Tick (ff_o_domain ff)) s (Sig x)))"
proof -
  let ?N = "nat (ff_stages ff)"
  let ?g = "stage (sig_shape (ff_i ff)) (ff_reset ff) (ff_reset_less ff) n"
  let ?d = "ff_o_domain ff"
  let ?D = "ff_design ?d (ff_i ff) (ff_o ff) ?g ?N"
  let ?m = "\<lparr>m_domains = [], m_stmts = d_stmts ?D, m_submodules = []\<rparr>"
  have N: "0 < ?N" using assms(3) by simp
  have el: "FFSynchronizer_elaborate ff p n = Inr (Built ?m, n + ?N)"
    using ff_elaborate_built [OF assms(1,2), of n] assms(3) by (simp add: ff_design_def)
  have inl: "inline p ?m (n + ?N) = Inr (?D, n + ?N)"
    by (simp add: inline_no_submodules ff_design_def)
  have inj: "inj_on ?g {..<?N}" by (rule stage_facts(1))
  have ne: "\<forall>k<?N. ?g k \<noteq> ff_i ff \<and> ?g k \<noteq> ff_o ff"
    using assms(4,5) by (simp add: stage_facts)
  have len: "length (m_stmts ?m) = ?N + 1"
    by (simp add: ff_design_def chain_length)
  have st: "\<exists>x rhs.
       m_stmts ?m ! k = (?d, Assign (Sig x) rhs) \<and>
       sig_uid x = n + k \<and>
       sig_shape x = sig_shape (ff_i ff) \<and>
       sig_reset x = ff_reset ff \<and>
       sig_reset_less x = ff_reset_less ff \<and>
       (\<forall>s. \<not> ff_reset_less ff \<and> s (ResetSignal ?d) \<noteq> 0 \<longrightarrow>
            step ?D (Tick ?d) s (Sig x) = ff_reset ff) \<and>
       (\<forall>s v. ff_reset_less ff \<longrightarrow>
            step ?D (Tick ?d) (s(ResetSignal ?d := v)) (Sig x) = step ?D (Tick ?d) s (Sig x))"
    if k: "k < ?N" for k
  proof -
    have nth: "m_stmts ?m ! k =
        (?d, Assign (Sig (?g k)) (if k = 0 then Sig (ff_i ff) else Sig (?g (k - 1))))"
      using k by (simp add: ff_design_def nth_append chain_length chain_nth)
    have tick: "step ?D (Tick ?d) s (Sig (?g k)) =
           (if s (ResetSignal ?d) \<noteq> 0 \<and> \<not> ff_reset_less ff
            then ff_reset ff
            else wrap (sig_shape (ff_i ff))
                   (if k = 0 then s (Sig (ff_i ff)) else s (Sig (?g (k - 1)))))" for s
      using ff_step_tick_stage [OF assms(7) inj ne k, of s] assms(8)
      by (simp add: stage_facts)
    have a: "\<forall>s. \<not> ff_reset_less ff \<and> s (ResetSignal ?d) \<noteq> 0 \<longrightarrow>
            step ?D (Tick ?d) s (Sig (?g k)) = ff_reset ff"
      unfolding tick by simp
    have b: "\<forall>s v. ff_reset_less ff \<longrightarrow>
            step ?D (Tick ?d) (s(ResetSignal ?d := v)) (Sig (?g k)) =
            step ?D (Tick ?d) s (Sig (?g k))"
      unfolding tick by simp
    show ?thesis
      apply (rule exI [of _ "?g k"])
      apply (rule exI [of _ "if k = 0 then Sig (ff_i ff) else Sig (?g (k - 1))"])
      using nth a b by (simp add: stage_facts stage_uid)
  qed
  show ?thesis
    apply (rule exI [of _ ?m], rule exI [of _ ?D])
    using el inl len st by blast
qed

text \<open>
  C8 at the last register of a chain that is not exempt, with reset value 1, and at the
  first register of an exempt chain.
\<close>

theorem ff_stages_shape_and_reset_witness:
  "get_ff_sync no_hooks = None \<and> ff_max_input_delay ff_resettable = PyNone \<and>
   2 \<le> ff_stages ff_resettable \<and> sig_uid (ff_i ff_resettable) < 2 \<and>
   sig_uid (ff_o ff_resettable) < 2 \<and> ff_i ff_resettable \<noteq> ff_o ff_resettable \<and>
   ff_o_domain ff_resettable \<noteq> ''comb'' \<and>
   wrap (sig_shape (ff_i ff_resettable)) (ff_reset ff_resettable) = ff_reset ff_resettable \<and>
   \<not> ff_reset_less ff_resettable \<and>
   (\<exists>m D. FFSynchronizer_elaborate ff_resettable no_hooks 2 = Inr (Built m, 5) \<and>
          inline no_hooks m 5 = Inr (D, 5) \<and>
          (\<exists>x rhs. m_stmts m ! 2 = (''sync'', Assign (Sig x) rhs) \<and>
             sig_shape x = sig_shape sig_a \<and> sig_reset x = 1 \<and> \<not> sig_reset_less x \<and>
             step D (Tick ''sync'') (power_on(ResetSignal ''sync'' := 1)) (Sig x) = 1)) \<and>
   ff_max_input_delay ff_plain = PyNone \<and>
   2 \<le> ff_stages ff_plain \<and> sig_uid (ff_i ff_plain) < 2 \<and> sig_uid (ff_o ff_plain) < 2 \<and>
   ff_i ff_plain \<noteq> ff_o ff_plain \<and> ff_o_domain ff_plain \<noteq> ''comb'' \<and>
   wrap (sig_shape (ff_i ff_plain)) (ff_reset ff_plain) = ff_reset ff_plain \<and>
   ff_reset_less ff_plain \<and>
   (\<exists>m D. FFSynchronizer_elaborate ff_plain no_hooks 2 = Inr (Built m, 5) \<and>
          inline no_hooks m 5 = Inr (D, 5) \<and>
          (\<exists>x rhs. m_stmts m ! 0 = (''sync'', Assign (Sig x) rhs) \<and>
             sig_reset_less x \<and>
             step D (Tick ''sync'') (power_on(ResetSignal ''sync'' := 1)) (Sig x) =
             step D (Tick ''sync'') power_on (Sig x)))"
proof -
  have h: "get_ff_sync no_hooks = None" "ff_max_input_delay ff_resettable = PyNone"
    "2 \<le> ff_stages ff_resettable" "sig_uid (ff_i ff_resettable) < 2"
    "sig_uid (ff_o ff_resettable) < 2" "ff_i ff_resettable \<noteq> ff_o ff_resettable"
    "ff_o_domain ff_resettable \<noteq> ''comb''"
    "wrap (sig_shape (ff_i ff_resettable)) (ff_reset ff_resettable) = ff_reset ff_resettable"
    by (simp_all add: no_hooks_def ff_resettable_def sig_a_def sig_b_def wrap_def unsigned_def)
  have f: "ff_i ff_resettable = sig_a" "ff_o_domain ff_resettable = ''sync''"
    "nat (ff_stages ff_resettable) = 3" "\<not> ff_reset_less ff_resettable"
    "ff_reset ff_resettable = 1"
    by (simp_all add: ff_resettable_def)
  have h': "get_ff_sync no_hooks = None" "ff_max_input_delay ff_plain = PyNone"
    "2 \<le> ff_stages ff_plain" "sig_uid (ff_i ff_plain) < 2" "sig_uid (ff_o ff_plain) < 2"
    "ff_i ff_plain \<noteq> ff_o ff_plain" "ff_o_domain ff_plain \<noteq> ''comb''"
    "wrap (sig_shape (ff_i ff_plain)) (ff_reset ff_plain) = ff_reset ff_plain"
    by (simp_all add: no_hooks_def ff_plain_def sig_a_def sig_b_def wrap_def unsigned_def)
  have f': "ff_i ff_plain = sig_a" "ff_o_domain ff_plain = ''sync''"
    "nat (ff_stages ff_plain) = 3" "ff_reset_less ff_plain"
    by (simp_all add: ff_plain_def)
  from ff_stages_shape_and_reset [OF h]
  obtain m D where
    e0: "FFSynchronizer_elaborate ff_resettable no_hooks 2 =
          Inr (Built m, 2 + nat (ff_stages ff_resettable))"
    and i0: "inline no_hooks m (2 + nat (ff_stages ff_resettable)) =
          Inr (D, 2 + nat (ff_stages ff_resettable))"
    and b0: "(\<forall>k<nat (ff_stages ff_resettable). \<exists>x rhs.
       m_stmts m ! k = (ff_o_domain ff_resettable, Assign (Sig x) rhs) \<and>
       sig_uid x = 2 + k \<and>
       sig_shape x = sig_shape (ff_i ff_resettable) \<and>
       sig_reset x = ff_reset ff_resettable \<and>
       sig_reset_less x = ff_reset_less ff_resettable \<and>
       (\<forall>s. \<not> ff_reset_less ff_resettable \<and> s (ResetSignal (ff_o_domain ff_resettable)) \<noteq> 0 \<longrightarrow>
            step D (Tick (ff_o_domain ff_resettable)) s (Sig x) = ff_reset ff_resettable) \<and>
       (\<forall>s v. ff_reset_less ff_resettable \<longrightarrow>
            step D (Tick (ff_o_domain ff_resettable)) (s(ResetSignal (ff_o_domain ff_resettable) := v)) (Sig x) =
            step D (Tick (ff_o_domain ff_resettable)) s (Sig x)))"
    by blast
  have e: "FFSynchronizer_elaborate ff_resettable no_hooks 2 = Inr (Built m, 5)"
    and i: "inline no_hooks m 5 = Inr (D, 5)"
    using e0 i0 by (simp_all add: f)
  have b: "\<exists>x rhs. m_stmts m ! k = (''sync'', Assign (Sig x) rhs) \<and>
        sig_shape x = sig_shape sig_a \<and> sig_reset x = 1 \<and> \<not> sig_reset_less x \<and>
        (\<forall>s. s (ResetSignal ''sync'') \<noteq> 0 \<longrightarrow> step D (Tick ''sync'') s (Sig x) = 1)"
    if "k < 3" for k
    using b0 [rule_format, of k] that by (simp add: f) blast
  from b [of 2] obtain x rhs where x: "m_stmts m ! 2 = (''sync'', Assign (Sig x) rhs)"
    "sig_shape x = sig_shape sig_a" "sig_reset x = 1" "\<not> sig_reset_less x"
    "\<forall>s. s (ResetSignal ''sync'') \<noteq> 0 \<longrightarrow> step D (Tick ''sync'') s (Sig x) = 1"
    by auto
  from x(5) have "step D (Tick ''sync'') (power_on(ResetSignal ''sync'' := 1)) (Sig x) = 1"
    by simp
  with e i x have r1: "\<exists>m D. FFSynchronizer_elaborate ff_resettable no_hooks 2 = Inr (Built m, 5) \<and>
          inline no_hooks m 5 = Inr (D, 5) \<and>
          (\<exists>x rhs. m_stmts m ! 2 = (''sync'', Assign (Sig x) rhs) \<and>
             sig_shape x = sig_shape sig_a \<and> sig_reset x = 1 \<and> \<not> sig_reset_less x \<and>
             step D (Tick ''sync'') (power_on(ResetSignal ''sync'' := 1)) (Sig x) = 1)"
    by blast
  from ff_stages_shape_and_reset [OF h']
  obtain m' D' where
    e0': "FFSynchronizer_elaborate ff_plain no_hooks 2 =
          Inr (Built m', 2 + nat (ff_stages ff_plain))"
    and i0': "inline no_hooks m' (2 + nat (ff_stages ff_plain)) =
          Inr (D', 2 + nat (ff_stages ff_plain))"
    and b0': "(\<forall>k<nat (ff_stages ff_plain). \<exists>x rhs.
       m_stmts m' ! k = (ff_o_domain ff_plain, Assign (Sig x) rhs) \<and>
       sig_uid x = 2 + k \<and>
       sig_shape x = sig_shape (ff_i ff_plain) \<and>
       sig_reset x = ff_reset ff_plain \<and>
       sig_reset_less x = ff_reset_less ff_plain \<and>
       (\<forall>s. \<not> ff_reset_less ff_plain \<and> s (ResetSignal (ff_o_domain ff_plain)) \<noteq> 0 \<longrightarrow>
            step D' (Tick (ff_o_domain ff_plain)) s (Sig x) = ff_reset ff_plain) \<and>
       (\<forall>s v. ff_reset_less ff_plain \<longrightarrow>
            step D' (Tick (ff_o_domain ff_plain)) (s(ResetSignal (ff_o_domain ff_plain) := v)) (Sig x) =
            step D' (Tick (ff_o_domain ff_plain)) s (Sig x)))"
    by blast
  have e': "FFSynchronizer_elaborate ff_plain no_hooks 2 = Inr (Built m', 5)"
    and i': "inline no_hooks m' 5 = Inr (D', 5)"
    using e0' i0' by (simp_all add: f')
  have b': "\<exists>x rhs. m_stmts m' ! k = (''sync'', Assign (Sig x) rhs) \<and>
        sig_reset_less x \<and>
        (\<forall>s v. step D' (Tick ''sync'') (s(ResetSignal ''sync'' := v)) (Sig x) =
               step D' (Tick ''sync'') s (Sig x))"
    if "k < 3" for k
    using b0' [rule_format, of k] that by (simp add: f') blast
  from b' [of 0] obtain x' rhs' where x': "m_stmts m' ! 0 = (''sync'', Assign (Sig x') rhs')"
    "sig_reset_less x'"
    "\<forall>s v. step D' (Tick ''sync'') (s(ResetSignal ''sync'' := v)) (Sig x') =
               step D' (Tick ''sync'') s (Sig x')"
    by auto
  with e' i' have r2: "\<exists>m D. FFSynchronizer_elaborate ff_plain no_hooks 2 = Inr (Built m, 5) \<and>
          inline no_hooks m 5 = Inr (D, 5) \<and>
          (\<exists>x rhs. m_stmts m ! 0 = (''sync'', Assign (Sig x) rhs) \<and>
             sig_reset_less x \<and>
             step D (Tick ''sync'') (power_on(ResetSignal ''sync'' := 1)) (Sig x) =
             step D (Tick ''sync'') power_on (Sig x))"
    by blast
  from h f(4) r1 h' f'(4) r2 show ?thesis by simp
qed

subsection \<open>The cascade of \<open>AsyncFFSynchronizer\<close> at an event\<close>

lemma output_signal_facts:
  assumes "output_signal n i ov"
  shows "ov \<noteq> Sig i" "sig_uid x \<ge> n \<Longrightarrow> ov \<noteq> Sig x" "ov \<noteq> ResetSignal ''async_ff''"
    "ov \<noteq> ClockSignal c" "assign ov v s ov = v mod 2" "clock_tie d (Assign ov r) = []"
  using assms by (cases ov; auto simp: wrap_def unsigned_def)+

lemma aff_comb_stmts:
  "domain_stmts ''comb'' (aff_design d rst ov g N) =
     [Assign (ResetSignal ''async_ff'') rst,
      Assign (ClockSignal ''async_ff'') (ClockSignal d),
      Assign ov (Sig (g (N - 1)))]"
  by (simp add: domain_stmts_def aff_design_def domain_stmts_chain)

lemma aff_domain_stmts:
  "domain_stmts ''async_ff'' (aff_design d rst ov g N) =
     map (\<lambda>k. Assign (Sig (g k)) (if k = 0 then Const 0 else Sig (g (k - 1)))) [0..<N]"
  by (simp add: domain_stmts_def aff_design_def domain_stmts_chain)

lemma aff_domain_stmts_other:
  "x \<noteq> ''comb'' \<Longrightarrow> x \<noteq> ''async_ff'' \<Longrightarrow> domain_stmts x (aff_design d rst ov g N) = []"
  by (simp add: domain_stmts_def aff_design_def domain_stmts_chain)

lemma aff_ticked:
  "output_signal n i ov \<Longrightarrow> ticked (aff_design d rst ov g N) d = [d, ''async_ff'']"
  by (simp add: ticked_def aff_comb_stmts output_signal_facts)

lemma aff_comb_pass:
  fixes s :: state
  assumes ov: "output_signal n i ov" and g: "\<forall>k. n \<le> sig_uid (g k)" and N: "0 < N"
  shows "comb_pass (aff_design d rst ov g N) s (ResetSignal ''async_ff'') = eval s rst mod 2"
    and "comb_pass (aff_design d rst ov g N) s ov = s (Sig (g (N - 1))) mod 2"
    and "l \<noteq> ResetSignal ''async_ff'' \<Longrightarrow> l \<noteq> ClockSignal ''async_ff'' \<Longrightarrow> l \<noteq> ov \<Longrightarrow>
         comb_pass (aff_design d rst ov g N) s l = s l"
proof -
  have o1: "ov \<noteq> ResetSignal ''async_ff''" "ov \<noteq> ClockSignal ''async_ff''"
    "ov \<noteq> Sig (g (N - 1))"
    using output_signal_facts [OF ov] g by simp_all
  let ?s1 = "s(ResetSignal ''async_ff'' := eval s rst mod 2)"
  let ?s2 = "?s1(ClockSignal ''async_ff'' := ?s1 (ClockSignal d) mod 2)"
  have cp: "comb_pass (aff_design d rst ov g N) s = assign ov (?s2 (Sig (g (N - 1)))) ?s2"
    by (simp add: comb_pass_def aff_comb_stmts wrap_def unsigned_def)
  show "comb_pass (aff_design d rst ov g N) s (ResetSignal ''async_ff'') = eval s rst mod 2"
    using o1 by (simp add: cp assign_other)
  show "comb_pass (aff_design d rst ov g N) s ov = s (Sig (g (N - 1))) mod 2"
    by (simp add: cp output_signal_facts(5) [OF ov])
  assume "l \<noteq> ResetSignal ''async_ff''" "l \<noteq> ClockSignal ''async_ff''" "l \<noteq> ov"
  then show "comb_pass (aff_design d rst ov g N) s l = s l"
    by (simp add: cp assign_other)
qed

lemma aff_comb_pass_clock:
  fixes s :: state
  assumes ov: "output_signal n i ov" and d: "d \<noteq> ''async_ff''"
  shows "comb_pass (aff_design d rst ov g N) s (ClockSignal ''async_ff'') =
         s (ClockSignal d) mod 2"
proof -
  have o1: "ov \<noteq> ClockSignal ''async_ff''"
    using output_signal_facts [OF ov] by simp
  let ?s1 = "s(ResetSignal ''async_ff'' := eval s rst mod 2)"
  let ?s2 = "?s1(ClockSignal ''async_ff'' := ?s1 (ClockSignal d) mod 2)"
  have cp: "comb_pass (aff_design d rst ov g N) s = assign ov (?s2 (Sig (g (N - 1)))) ?s2"
    by (simp add: comb_pass_def aff_comb_stmts wrap_def unsigned_def)
  show ?thesis using o1 d by (simp add: cp assign_other)
qed

lemma aff_settle:
  fixes s :: state
  assumes ov: "output_signal n i ov" and g: "\<forall>k. n \<le> sig_uid (g k)" and N: "0 < N"
    and i: "sig_uid i < n" and d: "d \<noteq> ''async_ff''"
    and rst: "rst = Sig i \<or> rst = Not (Sig i)"
  shows "settle (aff_design d rst ov g N) s = comb_pass (aff_design d rst ov g N) s"
proof -
  let ?D = "aff_design d rst ov g N"
  let ?P = "comb_pass ?D"
  note cp = aff_comb_pass [OF ov g N, where d = d and rst = rst]
  have o1: "ov \<noteq> Sig i" "ov \<noteq> Sig (g (N - 1))" "ov \<noteq> ClockSignal d"
    using output_signal_facts [OF ov] g by simp_all
  have pi: "?P s (Sig i) = s (Sig i)"
    using o1 by (simp add: cp(3))
  have ev: "eval (?P s) rst = eval s rst"
    using rst pi by auto
  have pg: "?P s (Sig (g (N - 1))) = s (Sig (g (N - 1)))"
    using o1 by (simp add: cp(3))
  have pc: "?P s (ClockSignal d) = s (ClockSignal d)"
    using o1 d by (simp add: cp(3))
  have "?P (?P s) l = ?P s l" for l
  proof -
    consider "l = ResetSignal ''async_ff''" | "l = ClockSignal ''async_ff''" | "l = ov"
      | "l \<noteq> ResetSignal ''async_ff''" "l \<noteq> ClockSignal ''async_ff''" "l \<noteq> ov"
      by blast
    then show ?thesis
    proof cases
      case 1
      then show ?thesis by (simp add: cp(1) ev)
    next
      case 2
      then show ?thesis by (simp add: aff_comb_pass_clock [OF ov d] pc)
    next
      case 3
      then show ?thesis using pg by (simp add: cp(2))
    next
      case 4
      then show ?thesis by (simp add: cp(3))
    qed
  qed
  then have "?P (?P s) = ?P s" by (rule ext)
  then show ?thesis
    by (simp add: settle_def aff_comb_stmts funpow_idem)
qed

lemma aff_async_reset:
  fixes s :: state
  assumes inj: "inj_on g {..<N}"
    and attr: "\<forall>k<N. sig_shape (g k) = unsigned 1 \<and> sig_reset (g k) = 1 \<and> \<not> sig_reset_less (g k)"
  shows "k < N \<Longrightarrow> async_reset (aff_design d rst ov g N) s (Sig (g k)) =
           (if s (ResetSignal ''async_ff'') \<noteq> 0 then 1 else s (Sig (g k)))"
    and "l \<notin> (\<lambda>k. Sig (g k)) ` {..<N} \<Longrightarrow> async_reset (aff_design d rst ov g N) s l = s l"
proof -
  let ?ss = "map (\<lambda>k. Assign (Sig (g k)) (if k = 0 then Const 0 else Sig (g (k - 1)))) [0..<N]"
  have ar: "async_reset (aff_design d rst ov g N) s =
        (if s (ResetSignal ''async_ff'') \<noteq> 0 then fold reset_of ?ss s else s)"
  proof -
    have dd: "d_domains (aff_design d rst ov g N) =
        [\<lparr>cd_name = ''async_ff'', cd_async_reset = True, cd_local = True\<rparr>]"
      by (simp add: aff_design_def)
    show ?thesis
      by (simp add: async_reset_def dd reset_domain_def aff_domain_stmts)
  qed
  have dist: "distinct (map target ?ss)"
    using inj by (rule chain_targets_distinct)
  { assume k: "k < N"
    then have mem: "Assign (Sig (g k)) (if k = 0 then Const 0 else Sig (g (k - 1))) \<in> set ?ss"
      by auto
    show "async_reset (aff_design d rst ov g N) s (Sig (g k)) =
           (if s (ResetSignal ''async_ff'') \<noteq> 0 then 1 else s (Sig (g k)))"
      using fold_reset_of_hit [OF dist mem, of s] attr k
      by (simp add: ar wrap_def unsigned_def) }
  assume "l \<notin> (\<lambda>k. Sig (g k)) ` {..<N}"
  then have t: "l \<notin> target ` set ?ss" by (auto simp: image_iff)
  show "async_reset (aff_design d rst ov g N) s l = s l"
    using fold_reset_of_other [OF t] by (simp add: ar)
qed

lemma aff_react:
  fixes s :: state
  assumes ov: "output_signal n i ov" and g: "\<forall>k. n \<le> sig_uid (g k)" and N: "0 < N"
    and i: "sig_uid i < n" and d: "d \<noteq> ''async_ff''"
    and rst: "rst = Sig i \<or> rst = Not (Sig i)"
    and inj: "inj_on g {..<N}"
    and attr: "\<forall>k<N. sig_shape (g k) = unsigned 1 \<and> sig_reset (g k) = 1 \<and> \<not> sig_reset_less (g k)"
  shows "k < N \<Longrightarrow> react (aff_design d rst ov g N) s (Sig (g k)) =
           (if eval s rst mod 2 \<noteq> 0 then 1 else s (Sig (g k)))"
    and "react (aff_design d rst ov g N) s (ResetSignal ''async_ff'') = eval s rst mod 2"
    and "react (aff_design d rst ov g N) s ov =
           react (aff_design d rst ov g N) s (Sig (g (N - 1))) mod 2"
    and "react (aff_design d rst ov g N) s (Sig i) = s (Sig i)"
proof -
  let ?D = "aff_design d rst ov g N"
  let ?P = "comb_pass ?D"
  let ?A = "async_reset ?D"
  note st = aff_settle [OF ov g N i d rst]
  note cp = aff_comb_pass [OF ov g N, where d = d and rst = rst]
  note ar = aff_async_reset [OF inj attr, where d = d and rst = rst and ov = ov]
  have R: "react ?D s = ?P (?A (?P s))"
    by (simp add: react_def st)
  have o0: "ov \<noteq> Sig i" "\<And>k. ov \<noteq> Sig (g k)"
    using output_signal_facts [OF ov] g by simp_all
  have o1: "Sig i \<noteq> ov" "\<And>k. Sig (g k) \<noteq> ov"
    using o0 by blast+
  have gi: "\<And>k. g k \<noteq> i" using g i by (metis not_le)
  have ni: "Sig i \<notin> (\<lambda>k. Sig (g k)) ` {..<N}" using gi by auto
  have pflop: "?P t (Sig (g k)) = t (Sig (g k))" for t :: state and k
    using o1 by (simp add: cp(3))
  have pin: "?P t (Sig i) = t (Sig i)" for t :: state
    using o1 by (simp add: cp(3))
  have pev: "eval (?P t) rst = eval t rst" for t :: state
    using rst pin by auto
  have ain: "?A t (Sig i) = t (Sig i)" for t :: state
    using ar(2) [OF ni] by simp
  have aev: "eval (?A t) rst = eval t rst" for t :: state
    using rst ain by auto
  show "react ?D s (ResetSignal ''async_ff'') = eval s rst mod 2"
    by (simp add: R cp(1) aev pev)
  show "react ?D s (Sig i) = s (Sig i)"
    by (simp add: R pin ain)
  have fl: "react ?D s (Sig (g k)) = (if eval s rst mod 2 \<noteq> 0 then 1 else s (Sig (g k)))"
    if "k < N" for k
    using that by (simp add: R pflop ar(1) cp(1))
  show "k < N \<Longrightarrow> react ?D s (Sig (g k)) =
           (if eval s rst mod 2 \<noteq> 0 then 1 else s (Sig (g k)))"
    by (rule fl)
  have "react ?D s ov = ?A (?P s) (Sig (g (N - 1))) mod 2"
    by (simp add: R cp(2))
  also have "?A (?P s) (Sig (g (N - 1))) = react ?D s (Sig (g (N - 1)))"
    by (simp add: R pflop)
  finally show "react ?D s ov = react ?D s (Sig (g (N - 1))) mod 2" .
qed

lemma aff_sync_update:
  fixes s :: state
  assumes ov: "output_signal n i ov" and d: "d \<noteq> ''async_ff''" and dc: "d \<noteq> ''comb''"
    and inj: "inj_on g {..<N}"
    and attr: "\<forall>k<N. sig_shape (g k) = unsigned 1 \<and> sig_reset (g k) = 1 \<and> \<not> sig_reset_less (g k)"
  shows "k < N \<Longrightarrow>
      fold (sync_update (aff_design d rst ov g N) s) (ticked (aff_design d rst ov g N) d) s
        (Sig (g k)) =
      (if s (ResetSignal ''async_ff'') \<noteq> 0 then 1
       else (if k = 0 then 0 else s (Sig (g (k - 1))) mod 2))"
    and "l \<notin> (\<lambda>k. Sig (g k)) ` {..<N} \<Longrightarrow>
      fold (sync_update (aff_design d rst ov g N) s) (ticked (aff_design d rst ov g N) d) s l
        = s l"
proof -
  let ?D = "aff_design d rst ov g N"
  let ?ss = "map (\<lambda>k. Assign (Sig (g k)) (if k = 0 then Const 0 else Sig (g (k - 1)))) [0..<N]"
  have u1: "sync_update ?D s d s = s"
    using d dc by (simp add: sync_update_def reset_domain_def aff_domain_stmts_other)
  have U: "fold (sync_update ?D s) (ticked ?D d) s =
      (if s (ResetSignal ''async_ff'') \<noteq> 0
       then fold reset_of ?ss (fold (exec_from s) ?ss s)
       else fold (exec_from s) ?ss s)"
    by (simp add: aff_ticked [OF ov] u1) (simp add: sync_update_def reset_domain_def aff_domain_stmts)
  have dist: "distinct (map target ?ss)"
    using inj by (rule chain_targets_distinct)
  { assume k: "k < N"
    then have mem: "Assign (Sig (g k)) (if k = 0 then Const 0 else Sig (g (k - 1))) \<in> set ?ss"
      by auto
    have e: "fold (exec_from s) ?ss s (Sig (g k)) =
             (if k = 0 then 0 else s (Sig (g (k - 1))) mod 2)"
      using fold_exec_from_hit [OF dist mem, of s s] attr k
      by (simp add: wrap_def unsigned_def)
    have r: "fold reset_of ?ss (fold (exec_from s) ?ss s) (Sig (g k)) = 1"
      using fold_reset_of_hit [OF dist mem] attr k by (simp add: wrap_def unsigned_def)
    show "fold (sync_update ?D s) (ticked ?D d) s (Sig (g k)) =
      (if s (ResetSignal ''async_ff'') \<noteq> 0 then 1
       else (if k = 0 then 0 else s (Sig (g (k - 1))) mod 2))"
      using e r by (simp add: U) }
  assume "l \<notin> (\<lambda>k. Sig (g k)) ` {..<N}"
  then have t: "l \<notin> target ` set ?ss" by (auto simp: image_iff)
  show "fold (sync_update ?D s) (ticked ?D d) s l = s l"
    using fold_exec_from_other [OF t] fold_reset_of_other [OF t] by (simp add: U)
qed

lemma aff_step_tick:
  fixes s :: state
  assumes ov: "output_signal n i ov" and g: "\<forall>k. n \<le> sig_uid (g k)" and N: "0 < N"
    and i: "sig_uid i < n" and d: "d \<noteq> ''async_ff''" and dc: "d \<noteq> ''comb''"
    and rst: "rst = Sig i \<or> rst = Not (Sig i)"
    and inj: "inj_on g {..<N}"
    and attr: "\<forall>k<N. sig_shape (g k) = unsigned 1 \<and> sig_reset (g k) = 1 \<and> \<not> sig_reset_less (g k)"
  shows "k < N \<Longrightarrow> step (aff_design d rst ov g N) (Tick d) s (Sig (g k)) =
           (if eval s rst mod 2 \<noteq> 0 \<or> s (ResetSignal ''async_ff'') \<noteq> 0 then 1
            else (if k = 0 then 0 else s (Sig (g (k - 1))) mod 2))"
    and "step (aff_design d rst ov g N) (Tick d) s (ResetSignal ''async_ff'') = eval s rst mod 2"
    and "step (aff_design d rst ov g N) (Tick d) s ov =
           step (aff_design d rst ov g N) (Tick d) s (Sig (g (N - 1))) mod 2"
    and "step (aff_design d rst ov g N) (Tick d) s (Sig i) = s (Sig i)"
proof -
  let ?D = "aff_design d rst ov g N"
  let ?U = "fold (sync_update ?D s) (ticked ?D d) s"
  note re = aff_react [OF ov g N i d rst inj attr]
  note su = aff_sync_update [OF ov d dc inj attr, where rst = rst and s = s]
  have gi: "\<And>k. g k \<noteq> i" using g i by (metis not_le)
  have ni: "Sig i \<notin> (\<lambda>k. Sig (g k)) ` {..<N}" using gi by auto
  have ui: "?U (Sig i) = s (Sig i)" by (rule su(2) [OF ni])
  have ev: "eval ?U rst = eval s rst" using rst ui by auto
  show "step ?D (Tick d) s (ResetSignal ''async_ff'') = eval s rst mod 2"
    by (simp add: step.simps re(2) ev)
  show "step ?D (Tick d) s (Sig i) = s (Sig i)"
    by (simp add: step.simps re(4) ui)
  show "step ?D (Tick d) s ov = step ?D (Tick d) s (Sig (g (N - 1))) mod 2"
    unfolding step.simps by (rule re(3))
  assume k: "k < N"
  show "step ?D (Tick d) s (Sig (g k)) =
           (if eval s rst mod 2 \<noteq> 0 \<or> s (ResetSignal ''async_ff'') \<noteq> 0 then 1
            else (if k = 0 then 0 else s (Sig (g (k - 1))) mod 2))"
    using su(1) [OF k] by (simp add: step.simps re(1) [OF k] ev)
qed

lemma aff_step_drive:
  fixes s :: state
  assumes ov: "output_signal n i ov" and g: "\<forall>k. n \<le> sig_uid (g k)" and N: "0 < N"
    and i: "sig_uid i < n" and d: "d \<noteq> ''async_ff''"
    and rst: "rst = Sig i \<or> rst = Not (Sig i)"
    and inj: "inj_on g {..<N}"
    and attr: "\<forall>k<N. sig_shape (g k) = unsigned 1 \<and> sig_reset (g k) = 1 \<and> \<not> sig_reset_less (g k)"
    and ish: "sig_shape i = unsigned 1"
  defines "lev \<equiv> \<lambda>v :: int. if rst = Sig i then v mod 2 else NOT (v mod 2) mod 2"
  shows "k < N \<Longrightarrow> step (aff_design d rst ov g N) (Drive (Sig i) v) s (Sig (g k)) =
           (if lev v \<noteq> 0 then 1 else s (Sig (g k)))"
    and "step (aff_design d rst ov g N) (Drive (Sig i) v) s (ResetSignal ''async_ff'') = lev v"
    and "step (aff_design d rst ov g N) (Drive (Sig i) v) s ov =
           step (aff_design d rst ov g N) (Drive (Sig i) v) s (Sig (g (N - 1))) mod 2"
    and "step (aff_design d rst ov g N) (Drive (Sig i) v) s (Sig i) = v mod 2"
proof -
  let ?D = "aff_design d rst ov g N"
  let ?s1 = "s(Sig i := v mod 2)"
  note re = aff_react [OF ov g N i d rst inj attr]
  have st: "step ?D (Drive (Sig i) v) s = react ?D ?s1"
    by (simp add: step.simps ish wrap_def unsigned_def)
  have gi: "\<And>k. g k \<noteq> i" using g i by (metis not_le)
  have ev: "eval ?s1 rst mod 2 = lev v"
    using rst by (auto simp: lev_def)
  show "step ?D (Drive (Sig i) v) s (ResetSignal ''async_ff'') = lev v"
    by (simp only: st re(2) ev)
  show "step ?D (Drive (Sig i) v) s (Sig i) = v mod 2"
    by (simp add: st re(4))
  show "step ?D (Drive (Sig i) v) s ov = step ?D (Drive (Sig i) v) s (Sig (g (N - 1))) mod 2"
    unfolding st by (rule re(3))
  assume k: "k < N"
  show "step ?D (Drive (Sig i) v) s (Sig (g k)) = (if lev v \<noteq> 0 then 1 else s (Sig (g k)))"
    using gi by (simp add: st re(1) [OF k] ev)
qed

lemma aff_assert:
  fixes s :: state
  assumes ov: "output_signal n i ov" and g: "\<forall>k. n \<le> sig_uid (g k)" and N: "0 < N"
    and i: "sig_uid i < n" and d: "d \<noteq> ''async_ff''"
    and inj: "inj_on g {..<N}"
    and attr: "\<forall>k<N. sig_shape (g k) = unsigned 1 \<and> sig_reset (g k) = 1 \<and> \<not> sig_reset_less (g k)"
    and ish: "sig_shape i = unsigned 1"
    and pol: "(rst = Sig i \<and> a = 1 \<and> r = 0) \<or> (rst = Not (Sig i) \<and> a = 0 \<and> r = 1)"
  shows "aff_asserted i ov g N a (step (aff_design d rst ov g N) (Drive (Sig i) a) s)"
proof -
  have rst: "rst = Sig i \<or> rst = Not (Sig i)" using pol by blast
  note sd = aff_step_drive [OF ov g N i d rst inj attr ish, where s = s and v = a]
  have lev: "(if rst = Sig i then a mod 2 else NOT (a mod 2) mod 2) = 1"
    using pol by auto
  have fl: "\<forall>j<N. step (aff_design d rst ov g N) (Drive (Sig i) a) s (Sig (g j)) = 1"
    using sd(1) lev by simp
  moreover have "step (aff_design d rst ov g N) (Drive (Sig i) a) s ov = 1"
    using sd(3) fl N by simp
  moreover have "step (aff_design d rst ov g N) (Drive (Sig i) a) s (Sig i) = a"
    using sd(4) pol by auto
  ultimately show ?thesis by (simp add: aff_asserted_def)
qed

lemma aff_asserted_tick:
  fixes t :: state
  assumes ov: "output_signal n i ov" and g: "\<forall>k. n \<le> sig_uid (g k)" and N: "0 < N"
    and i: "sig_uid i < n" and d: "d \<noteq> ''async_ff''" and dc: "d \<noteq> ''comb''"
    and inj: "inj_on g {..<N}"
    and attr: "\<forall>k<N. sig_shape (g k) = unsigned 1 \<and> sig_reset (g k) = 1 \<and> \<not> sig_reset_less (g k)"
    and pol: "(rst = Sig i \<and> a = 1 \<and> r = 0) \<or> (rst = Not (Sig i) \<and> a = 0 \<and> r = 1)"
    and t: "aff_asserted i ov g N a t"
  shows "aff_asserted i ov g N a (step (aff_design d rst ov g N) (Tick d) t)"
proof -
  have rst: "rst = Sig i \<or> rst = Not (Sig i)" using pol by blast
  note tk = aff_step_tick [OF ov g N i d dc rst inj attr, where s = t]
  have ev: "eval t rst mod 2 \<noteq> 0"
    using pol t by (auto simp: aff_asserted_def)
  have fl: "\<forall>j<N. step (aff_design d rst ov g N) (Tick d) t (Sig (g j)) = 1"
    using tk(1) ev by simp
  moreover have "step (aff_design d rst ov g N) (Tick d) t ov = 1"
    using tk(3) fl N by simp
  moreover have "step (aff_design d rst ov g N) (Tick d) t (Sig i) = a"
    using tk(4) t by (simp add: aff_asserted_def)
  ultimately show ?thesis by (simp add: aff_asserted_def)
qed

lemma aff_release:
  fixes t :: state
  assumes ov: "output_signal n i ov" and g: "\<forall>k. n \<le> sig_uid (g k)" and N: "0 < N"
    and i: "sig_uid i < n" and d: "d \<noteq> ''async_ff''"
    and inj: "inj_on g {..<N}"
    and attr: "\<forall>k<N. sig_shape (g k) = unsigned 1 \<and> sig_reset (g k) = 1 \<and> \<not> sig_reset_less (g k)"
    and ish: "sig_shape i = unsigned 1"
    and pol: "(rst = Sig i \<and> a = 1 \<and> r = 0) \<or> (rst = Not (Sig i) \<and> a = 0 \<and> r = 1)"
    and t: "aff_asserted i ov g N a t"
  shows "aff_released i ov g N r 0 (step (aff_design d rst ov g N) (Drive (Sig i) r) t)"
proof -
  have rst: "rst = Sig i \<or> rst = Not (Sig i)" using pol by blast
  note sd = aff_step_drive [OF ov g N i d rst inj attr ish, where s = t and v = r]
  have lev: "(if rst = Sig i then r mod 2 else NOT (r mod 2) mod 2) = 0"
    using pol by auto
  have fl: "\<forall>j<N. step (aff_design d rst ov g N) (Drive (Sig i) r) t (Sig (g j)) = 1"
    using sd(1) lev t by (simp add: aff_asserted_def)
  moreover have "step (aff_design d rst ov g N) (Drive (Sig i) r) t ov = 1"
    using sd(3) fl N by simp
  moreover have "step (aff_design d rst ov g N) (Drive (Sig i) r) t (Sig i) = r"
    using sd(4) pol by auto
  moreover have "step (aff_design d rst ov g N) (Drive (Sig i) r) t (ResetSignal ''async_ff'') = 0"
    using sd(2) lev by simp
  ultimately show ?thesis using N by (simp add: aff_released_def)
qed

lemma aff_released_tick:
  fixes t :: state
  assumes ov: "output_signal n i ov" and g: "\<forall>k. n \<le> sig_uid (g k)" and N: "0 < N"
    and i: "sig_uid i < n" and d: "d \<noteq> ''async_ff''" and dc: "d \<noteq> ''comb''"
    and inj: "inj_on g {..<N}"
    and attr: "\<forall>k<N. sig_shape (g k) = unsigned 1 \<and> sig_reset (g k) = 1 \<and> \<not> sig_reset_less (g k)"
    and pol: "(rst = Sig i \<and> a = 1 \<and> r = 0) \<or> (rst = Not (Sig i) \<and> a = 0 \<and> r = 1)"
    and t: "aff_released i ov g N r k t"
  shows "aff_released i ov g N r (Suc k) (step (aff_design d rst ov g N) (Tick d) t)"
proof -
  let ?t' = "step (aff_design d rst ov g N) (Tick d) t"
  have rst: "rst = Sig i \<or> rst = Not (Sig i)" using pol by blast
  note tk = aff_step_tick [OF ov g N i d dc rst inj attr, where s = t]
  have ev: "eval t rst mod 2 = 0"
    using pol t by (auto simp: aff_released_def)
  have r0: "t (ResetSignal ''async_ff'') = 0" using t by (simp add: aff_released_def)
  have fl: "?t' (Sig (g j)) = (if j < Suc k then 0 else 1)" if j: "j < N" for j
  proof (cases "j = 0")
    case True
    then show ?thesis using tk(1) [OF j] ev r0 by simp
  next
    case False
    then have "j - 1 < N" using j by simp
    then have "t (Sig (g (j - 1))) = (if j - 1 < k then 0 else 1)"
      using t by (simp add: aff_released_def)
    then show ?thesis using tk(1) [OF j] ev r0 False by auto
  qed
  have "?t' ov = ?t' (Sig (g (N - 1))) mod 2" by (rule tk(3))
  also have "\<dots> = (if N - 1 < Suc k then 0 else 1)" using fl [of "N - 1"] N by simp
  also have "\<dots> = (if Suc k < N then 1 else 0)" using N by auto
  finally have o: "?t' ov = (if Suc k < N then 1 else 0)" .
  have "?t' (Sig i) = r" using tk(4) t by (simp add: aff_released_def)
  moreover have "?t' (ResetSignal ''async_ff'') = 0" using tk(2) ev by simp
  ultimately show ?thesis using fl o by (simp add: aff_released_def)
qed

lemma run_Cons: "run D (e # es) s = run D es (step D e s)"
  by (simp add: run_def)

lemma run_ticks_Suc: "run D (replicate (Suc k) e) s = step D e (run D (replicate k e) s)"
  by (simp add: run_def replicate_append_same [symmetric] del: replicate.simps)

lemma aff_run_asserted:
  fixes t :: state
  assumes ov: "output_signal n i ov" and g: "\<forall>k. n \<le> sig_uid (g k)" and N: "0 < N"
    and i: "sig_uid i < n" and d: "d \<noteq> ''async_ff''" and dc: "d \<noteq> ''comb''"
    and inj: "inj_on g {..<N}"
    and attr: "\<forall>k<N. sig_shape (g k) = unsigned 1 \<and> sig_reset (g k) = 1 \<and> \<not> sig_reset_less (g k)"
    and pol: "(rst = Sig i \<and> a = 1 \<and> r = 0) \<or> (rst = Not (Sig i) \<and> a = 0 \<and> r = 1)"
    and t: "aff_asserted i ov g N a t"
  shows "aff_asserted i ov g N a (run (aff_design d rst ov g N) (replicate k (Tick d)) t)"
proof (induction k)
  case 0
  then show ?case using t by (simp add: run_def)
next
  case (Suc k)
  show ?case
    unfolding run_ticks_Suc
    by (rule aff_asserted_tick [OF ov g N i d dc inj attr pol Suc])
qed

lemma aff_run_released:
  fixes t :: state
  assumes ov: "output_signal n i ov" and g: "\<forall>k. n \<le> sig_uid (g k)" and N: "0 < N"
    and i: "sig_uid i < n" and d: "d \<noteq> ''async_ff''" and dc: "d \<noteq> ''comb''"
    and inj: "inj_on g {..<N}"
    and attr: "\<forall>k<N. sig_shape (g k) = unsigned 1 \<and> sig_reset (g k) = 1 \<and> \<not> sig_reset_less (g k)"
    and pol: "(rst = Sig i \<and> a = 1 \<and> r = 0) \<or> (rst = Not (Sig i) \<and> a = 0 \<and> r = 1)"
    and t: "aff_released i ov g N r 0 t"
  shows "aff_released i ov g N r k (run (aff_design d rst ov g N) (replicate k (Tick d)) t)"
proof (induction k)
  case 0
  then show ?case using t by (simp add: run_def)
next
  case (Suc k)
  show ?case
    unfolding run_ticks_Suc
    by (rule aff_released_tick [OF ov g N i d dc inj attr pol Suc])
qed

lemma aff_behaviour:
  fixes s :: state
  assumes ov: "output_signal n i ov" and g: "\<forall>k. n \<le> sig_uid (g k)" and N: "0 < N"
    and i: "sig_uid i < n" and d: "d \<noteq> ''async_ff''" and dc: "d \<noteq> ''comb''"
    and inj: "inj_on g {..<N}"
    and attr: "\<forall>k<N. sig_shape (g k) = unsigned 1 \<and> sig_reset (g k) = 1 \<and> \<not> sig_reset_less (g k)"
    and ish: "sig_shape i = unsigned 1"
    and pol: "(rst = Sig i \<and> a = 1 \<and> r = 0) \<or> (rst = Not (Sig i) \<and> a = 0 \<and> r = 1)"
  shows "run (aff_design d rst ov g N) (Drive (Sig i) a # replicate j (Tick d)) s ov = 1"
    and "run (aff_design d rst ov g N)
           (Drive (Sig i) a # replicate j (Tick d) @ Drive (Sig i) r # replicate k (Tick d)) s ov
         = (if k < N then 1 else 0)"
proof -
  let ?D = "aff_design d rst ov g N"
  let ?s1 = "step ?D (Drive (Sig i) a) s"
  let ?s2 = "run ?D (replicate j (Tick d)) ?s1"
  let ?s3 = "step ?D (Drive (Sig i) r) ?s2"
  have a1: "aff_asserted i ov g N a ?s1"
    by (rule aff_assert [OF ov g N i d inj attr ish pol])
  have a2: "aff_asserted i ov g N a ?s2"
    by (rule aff_run_asserted [OF ov g N i d dc inj attr pol a1])
  show "run ?D (Drive (Sig i) a # replicate j (Tick d)) s ov = 1"
    using a2 by (simp add: run_Cons aff_asserted_def)
  have r3: "aff_released i ov g N r 0 ?s3"
    by (rule aff_release [OF ov g N i d inj attr ish pol a2])
  have "aff_released i ov g N r k (run ?D (replicate k (Tick d)) ?s3)"
    by (rule aff_run_released [OF ov g N i d dc inj attr pol r3])
  then show "run ?D
           (Drive (Sig i) a # replicate j (Tick d) @ Drive (Sig i) r # replicate k (Tick d)) s ov
         = (if k < N then 1 else 0)"
    by (simp add: run_Cons run_append aff_released_def)
qed

subsection \<open>\<open>AsyncFFSynchronizer\<close> and \<open>ResetSynchronizer\<close>\<close>



text \<open>
  C5: in the design made of what \<open>elaborate\<close> of an \<open>AsyncFFSynchronizer\<close> returns, whatever
  the state, as soon as the input takes its asserting value (1 for \<open>pos\<close>, 0 otherwise) the
  output is 1, with no clock edge, and stays 1 through any number of clock edges of the
  destination domain. Once the input takes the other value, the output is 1 after fewer
  than \<open>stages\<close> clock edges of the destination domain and 0 after \<open>stages\<close> or more. The
  generator is as its constructor leaves it; the input is a one-bit signal that existed
  before \<open>elaborate\<close> was called; the output is a signal of the caller as
  \<open>output_signal\<close> describes; the destination domain is a clock domain of the caller.
\<close>

theorem async_assert_sync_deassert:
  assumes "get_async_ff_sync p = None" and "aff_max_input_delay aff = PyNone"
    and "2 \<le> aff_stages aff"
    and "sig_uid (aff_i aff) < n" and "sig_shape (aff_i aff) = unsigned 1"
    and "output_signal n (aff_i aff) (aff_o aff)"
    and "aff_domain aff \<noteq> ''comb''" and "aff_domain aff \<noteq> ''async_ff''"
  shows "\<exists>m D.
    AsyncFFSynchronizer_elaborate aff p n = Inr (Built m, n + nat (aff_stages aff)) \<and>
    inline p m (n + nat (aff_stages aff)) = Inr (D, n + nat (aff_stages aff)) \<and>
    (\<forall>s j. run D (Drive (Sig (aff_i aff)) (if aff_edge aff = ''pos'' then 1 else 0) #
                  replicate j (Tick (aff_domain aff))) s (aff_o aff) = 1) \<and>
    (\<forall>s j k. run D (Drive (Sig (aff_i aff)) (if aff_edge aff = ''pos'' then 1 else 0) #
                    replicate j (Tick (aff_domain aff)) @
                    Drive (Sig (aff_i aff)) (if aff_edge aff = ''pos'' then 0 else 1) #
                    replicate k (Tick (aff_domain aff))) s (aff_o aff) =
              (if k < nat (aff_stages aff) then 1 else 0))"
proof -
  let ?N = "nat (aff_stages aff)"
  let ?g = "stage (unsigned 1) 1 False n"
  let ?rst = "if aff_edge aff = ''pos'' then Sig (aff_i aff) else Not (Sig (aff_i aff))"
  let ?a = "if aff_edge aff = ''pos'' then 1 else 0 :: int"
  let ?r = "if aff_edge aff = ''pos'' then 0 else 1 :: int"
  let ?D = "aff_design (aff_domain aff) ?rst (aff_o aff) ?g ?N"
  let ?m = "\<lparr>m_domains = d_domains ?D, m_stmts = d_stmts ?D, m_submodules = []\<rparr>"
  have N: "0 < ?N" and N1: "1 \<le> aff_stages aff" using assms(3) by simp_all
  have el: "AsyncFFSynchronizer_elaborate aff p n = Inr (Built ?m, n + ?N)"
    using aff_elaborate_built [OF assms(1,2) N1, of n] by (simp add: aff_design_def)
  have inl: "inline p ?m (n + ?N) = Inr (?D, n + ?N)"
    by (simp add: inline_no_submodules)
  have g: "\<forall>k. n \<le> sig_uid (?g k)" by (simp add: stage_uid)
  have inj: "inj_on ?g {..<?N}" by (rule stage_facts(1))
  have attr: "\<forall>k<?N. sig_shape (?g k) = unsigned 1 \<and> sig_reset (?g k) = 1 \<and>
      \<not> sig_reset_less (?g k)"
    by (simp add: stage_facts)
  have pol: "(?rst = Sig (aff_i aff) \<and> ?a = 1 \<and> ?r = 0) \<or>
             (?rst = Not (Sig (aff_i aff)) \<and> ?a = 0 \<and> ?r = 1)"
    by simp
  note beh = aff_behaviour [OF assms(6) g N assms(4) assms(8) assms(7) inj attr assms(5) pol]
  show ?thesis
    apply (rule exI [of _ ?m], rule exI [of _ ?D])
    using el inl beh by blast
qed

text \<open>
  C5 at two stages. On the rising edge: the output is 1 at once, 1 after release and one
  clock edge, 0 after release and two. On the falling edge: 1 after three clock edges
  with the input at 0, 0 after release and two clock edges.
\<close>

theorem async_assert_sync_deassert_witness:
  "get_async_ff_sync no_hooks = None \<and> aff_max_input_delay aff_pos = PyNone \<and>
   2 \<le> aff_stages aff_pos \<and> sig_uid (aff_i aff_pos) < 2 \<and>
   sig_shape (aff_i aff_pos) = unsigned 1 \<and> output_signal 2 (aff_i aff_pos) (aff_o aff_pos) \<and>
   aff_domain aff_pos \<noteq> ''comb'' \<and> aff_domain aff_pos \<noteq> ''async_ff'' \<and>
   (\<exists>m D. AsyncFFSynchronizer_elaborate aff_pos no_hooks 2 = Inr (Built m, 4) \<and>
      inline no_hooks m 4 = Inr (D, 4) \<and>
      run D [Drive (Sig sig_a) 1] power_on (Sig sig_b) = 1 \<and>
      run D [Drive (Sig sig_a) 1, Drive (Sig sig_a) 0, Tick ''sync''] power_on (Sig sig_b) = 1 \<and>
      run D [Drive (Sig sig_a) 1, Drive (Sig sig_a) 0, Tick ''sync'', Tick ''sync''] power_on
        (Sig sig_b) = 0) \<and>
   aff_max_input_delay aff_neg = PyNone \<and>
   2 \<le> aff_stages aff_neg \<and> sig_uid (aff_i aff_neg) < 2 \<and>
   sig_shape (aff_i aff_neg) = unsigned 1 \<and> output_signal 2 (aff_i aff_neg) (aff_o aff_neg) \<and>
   aff_domain aff_neg \<noteq> ''comb'' \<and> aff_domain aff_neg \<noteq> ''async_ff'' \<and>
   (\<exists>m D. AsyncFFSynchronizer_elaborate aff_neg no_hooks 2 = Inr (Built m, 4) \<and>
      inline no_hooks m 4 = Inr (D, 4) \<and>
      run D [Drive (Sig sig_a) 0, Tick ''sync'', Tick ''sync'', Tick ''sync''] power_on
        (Sig sig_b) = 1 \<and>
      run D [Drive (Sig sig_a) 0, Drive (Sig sig_a) 1, Tick ''sync'', Tick ''sync''] power_on
        (Sig sig_b) = 0)"
proof -
  have h: "get_async_ff_sync no_hooks = None" "aff_max_input_delay aff_pos = PyNone"
    "2 \<le> aff_stages aff_pos" "sig_uid (aff_i aff_pos) < 2"
    "sig_shape (aff_i aff_pos) = unsigned 1" "output_signal 2 (aff_i aff_pos) (aff_o aff_pos)"
    "aff_domain aff_pos \<noteq> ''comb''" "aff_domain aff_pos \<noteq> ''async_ff''"
    by (simp_all add: no_hooks_def aff_pos_def sig_a_def sig_b_def)
  have h': "get_async_ff_sync no_hooks = None" "aff_max_input_delay aff_neg = PyNone"
    "2 \<le> aff_stages aff_neg" "sig_uid (aff_i aff_neg) < 2"
    "sig_shape (aff_i aff_neg) = unsigned 1" "output_signal 2 (aff_i aff_neg) (aff_o aff_neg)"
    "aff_domain aff_neg \<noteq> ''comb''" "aff_domain aff_neg \<noteq> ''async_ff''"
    by (simp_all add: no_hooks_def aff_neg_def sig_a_def sig_b_def)
  have f: "aff_i aff_pos = sig_a" "aff_o aff_pos = Sig sig_b" "aff_domain aff_pos = ''sync''"
    "nat (aff_stages aff_pos) = 2" "aff_edge aff_pos = ''pos''"
    by (simp_all add: aff_pos_def)
  have f': "aff_i aff_neg = sig_a" "aff_o aff_neg = Sig sig_b" "aff_domain aff_neg = ''sync''"
    "nat (aff_stages aff_neg) = 2" "aff_edge aff_neg \<noteq> ''pos''"
    by (simp_all add: aff_neg_def)
  from async_assert_sync_deassert [OF h, unfolded f]
  obtain m D where e: "AsyncFFSynchronizer_elaborate aff_pos no_hooks 2 = Inr (Built m, 2 + 2)"
    and i: "inline no_hooks m (2 + 2) = Inr (D, 2 + 2)"
    and a: "\<forall>s j. run D (Drive (Sig sig_a) (if ''pos'' = ''pos'' then 1 else 0) #
                  replicate j (Tick ''sync'')) s (Sig sig_b) = 1"
    and b: "\<forall>s j k. run D (Drive (Sig sig_a) (if ''pos'' = ''pos'' then 1 else 0) #
                    replicate j (Tick ''sync'') @
                    Drive (Sig sig_a) (if ''pos'' = ''pos'' then 0 else 1) #
                    replicate k (Tick ''sync'')) s (Sig sig_b) =
              (if k < 2 then 1 else 0)"
    by blast
  have r1: "\<exists>m D. AsyncFFSynchronizer_elaborate aff_pos no_hooks 2 = Inr (Built m, 4) \<and>
      inline no_hooks m 4 = Inr (D, 4) \<and>
      run D [Drive (Sig sig_a) 1] power_on (Sig sig_b) = 1 \<and>
      run D [Drive (Sig sig_a) 1, Drive (Sig sig_a) 0, Tick ''sync''] power_on (Sig sig_b) = 1 \<and>
      run D [Drive (Sig sig_a) 1, Drive (Sig sig_a) 0, Tick ''sync'', Tick ''sync''] power_on
        (Sig sig_b) = 0"
  proof -
    have x1: "run D [Drive (Sig sig_a) 1] power_on (Sig sig_b) = 1"
      using a [rule_format, of 0 power_on] by simp
    have x2: "run D [Drive (Sig sig_a) 1, Drive (Sig sig_a) 0, Tick ''sync''] power_on
        (Sig sig_b) = 1"
      using b [rule_format, of 0 "Suc 0" power_on] by simp
    have x3: "run D [Drive (Sig sig_a) 1, Drive (Sig sig_a) 0, Tick ''sync'', Tick ''sync'']
        power_on (Sig sig_b) = 0"
      using b [rule_format, of 0 "Suc (Suc 0)" power_on] by simp
    from e i have "AsyncFFSynchronizer_elaborate aff_pos no_hooks 2 = Inr (Built m, 4)"
      "inline no_hooks m 4 = Inr (D, 4)"
      by simp_all
    with x1 x2 x3 show ?thesis by blast
  qed
  from async_assert_sync_deassert [OF h']
  obtain m' D' where e': "AsyncFFSynchronizer_elaborate aff_neg no_hooks 2 =
        Inr (Built m', 2 + nat (aff_stages aff_neg))"
    and i': "inline no_hooks m' (2 + nat (aff_stages aff_neg)) =
        Inr (D', 2 + nat (aff_stages aff_neg))"
    and a': "\<forall>s j. run D' (Drive (Sig (aff_i aff_neg)) (if aff_edge aff_neg = ''pos'' then 1 else 0) #
                  replicate j (Tick (aff_domain aff_neg))) s (aff_o aff_neg) = 1"
    and b': "\<forall>s j k. run D' (Drive (Sig (aff_i aff_neg)) (if aff_edge aff_neg = ''pos'' then 1 else 0) #
                    replicate j (Tick (aff_domain aff_neg)) @
                    Drive (Sig (aff_i aff_neg)) (if aff_edge aff_neg = ''pos'' then 0 else 1) #
                    replicate k (Tick (aff_domain aff_neg))) s (aff_o aff_neg) =
              (if k < nat (aff_stages aff_neg) then 1 else 0)"
    by blast
  have r2: "\<exists>m D. AsyncFFSynchronizer_elaborate aff_neg no_hooks 2 = Inr (Built m, 4) \<and>
      inline no_hooks m 4 = Inr (D, 4) \<and>
      run D [Drive (Sig sig_a) 0, Tick ''sync'', Tick ''sync'', Tick ''sync''] power_on
        (Sig sig_b) = 1 \<and>
      run D [Drive (Sig sig_a) 0, Drive (Sig sig_a) 1, Tick ''sync'', Tick ''sync''] power_on
        (Sig sig_b) = 0"
  proof -
    have x1: "run D' [Drive (Sig sig_a) 0, Tick ''sync'', Tick ''sync'', Tick ''sync'']
        power_on (Sig sig_b) = 1"
      using a' [rule_format, of "Suc (Suc (Suc 0))" power_on] by (simp add: f')
    have x2: "run D' [Drive (Sig sig_a) 0, Drive (Sig sig_a) 1, Tick ''sync'', Tick ''sync'']
        power_on (Sig sig_b) = 0"
      using b' [rule_format, of 0 "Suc (Suc 0)" power_on] by (simp add: f')
    from e' i' have "AsyncFFSynchronizer_elaborate aff_neg no_hooks 2 = Inr (Built m', 4)"
      "inline no_hooks m' 4 = Inr (D', 4)"
      by (simp_all add: f')
    with x1 x2 show ?thesis by blast
  qed
  from h r1 h' r2 show ?thesis by simp
qed



subsection \<open>\<open>PulseSynchronizer\<close>\<close>




















end
